theory Spec2Isabelle
  imports Main
begin

section \<open>Data model\<close>

text \<open>
  The editor of \<^verbatim>\<open>src/app/page.tsx\<close> keeps a forest of \<^verbatim>\<open>NodeItem\<close> objects
  and a one-slot clipboard in React state. Ids are ASCII strings (\<^verbatim>\<open>'root'\<close> or a
  value of \<^verbatim>\<open>uuidv4()\<close>); labels are JavaScript strings, modelled as lists of UTF-16
  code units so that \<^verbatim>\<open>String.prototype.trim\<close> can be written out. The optional
  fields \<^verbatim>\<open>parentId?\<close> and \<^verbatim>\<open>isCut?\<close> are options (\<open>None\<close> is
  \<^verbatim>\<open>undefined\<close>). \<^verbatim>\<open>col\<close> and \<^verbatim>\<open>row\<close> are JavaScript numbers that only
  ever hold small integers here; they are modelled as \<open>int\<close>. The field
  \<^verbatim>\<open>id\<close> is the selector \<open>node_id\<close>, since \<open>id\<close> is the identity function of
  HOL. The state is the part of the component's \<^verbatim>\<open>useState\<close> values that the
  handlers read and write; the context menu position is the pair (top, left).
\<close>

type_synonym jsstring = "nat list"

datatype NodeItem = NodeItem
  (node_id: string)
  (label: jsstring)
  (children: "NodeItem list")
  (parentId: "string option")
  (isCut: "bool option")
  (col: int)
  (row: int)

datatype Mode = Cut | Copy

record State =
  nodes :: "NodeItem list"
  contextNode :: "NodeItem option"
  contextMenu :: "(int \<times> int) option"
  modalOpen :: bool
  newLabel :: jsstring
  clipboard :: "(Mode \<times> NodeItem) option"

definition RootLabel :: jsstring where
  "RootLabel = [1581, 1587, 1575, 1576, 8204, 1607, 1575, 1740, 32, 1575, 1589, 1604, 1740]"

definition initialNodes :: "NodeItem list" where
  "initialNodes = [NodeItem ''root'' RootLabel [] None None 0 0]"

definition initialState :: State where
  "initialState = \<lparr>nodes = initialNodes, contextNode = None, contextMenu = None,
     modalOpen = False, newLabel = [], clipboard = None\<rparr>"

text \<open>The object spread \<^verbatim>\<open>{ ...node, children: cs }\<close>.\<close>

definition withChildren :: "NodeItem \<Rightarrow> NodeItem list \<Rightarrow> NodeItem" where
  "withChildren node cs =
     NodeItem (node_id node) (label node) cs (parentId node) (isCut node) (col node) (row node)"

lemma size_children_less: "size_list size (children n) < size n"
  by (cases n) simp

lemma size_member_le: "n \<in> set ts \<Longrightarrow> size n \<le> size_list size ts"
  by (induction ts) auto

lemma size_children_less2: "Suc (2 * size_list size (children n)) < 2 * size n"
  using size_children_less [of n] by arith

lemma size_children_member: "n \<in> set ts \<Longrightarrow> size_list size (children n) < size_list size ts"
  using size_children_less [of n] size_member_le [of n ts] by simp

section \<open>Tree operations of page.tsx\<close>

fun markCutNodes :: "NodeItem \<Rightarrow> NodeItem" where
  "markCutNodes (NodeItem i l cs p c co ro) =
     NodeItem i l (map markCutNodes cs) p (Some True) co ro"

fun clearCutFlags :: "NodeItem \<Rightarrow> NodeItem" where
  "clearCutFlags (NodeItem i l cs p c co ro) =
     NodeItem i l (map clearCutFlags cs) p (Some False) co ro"

text \<open>\<^verbatim>\<open>flattenTree\<close>: \<^verbatim>\<open>walk\<close> pushes the node, then walks its children in order.\<close>

fun walk :: "NodeItem \<Rightarrow> NodeItem list" where
  "walk (NodeItem i l cs p c co ro) = NodeItem i l cs p c co ro # concat (map walk cs)"

definition flattenTree :: "NodeItem list \<Rightarrow> NodeItem list" where
  "flattenTree tree = concat (map walk tree)"

text \<open>
  \<^verbatim>\<open>updateTree\<close> maps over the list: a node with the given id is replaced by its
  updated copy (its children are not searched), a node with children is rebuilt around
  the updated children, a leaf is returned as it is. The updater mutates a fresh shallow
  copy, so it is a function from the copy to the result.
\<close>

function updateTree :: "NodeItem list \<Rightarrow> string \<Rightarrow> (NodeItem \<Rightarrow> NodeItem) \<Rightarrow> NodeItem list" where
  "updateTree current i updater =
     map (\<lambda>node.
        if node_id node = i then updater node
        else if children node \<noteq> [] then withChildren node (updateTree (children node) i updater)
        else node) current"
  by pat_completeness auto
termination
  by (relation "measure (\<lambda>(ts, _, _). size_list size ts)") (auto simp: size_children_member)

declare updateTree.simps [simp del]

function replaceNodeInTree :: "NodeItem list \<Rightarrow> string \<Rightarrow> NodeItem \<Rightarrow> NodeItem list" where
  "replaceNodeInTree ns targetId updatedNode =
     map (\<lambda>node.
        if node_id node = targetId then updatedNode
        else if length (children node) > 0
          then withChildren node (replaceNodeInTree (children node) targetId updatedNode)
        else node) ns"
  by pat_completeness auto
termination
  by (relation "measure (\<lambda>(ts, _, _). size_list size ts)") (auto simp: size_children_member)

declare replaceNodeInTree.simps [simp del]

text \<open>
  \<^verbatim>\<open>deleteFrom\<close> closes over \<^verbatim>\<open>contextNode?.id\<close> and \<^verbatim>\<open>removeFrom\<close> over
  \<^verbatim>\<open>clipboard?.node.id\<close>; both are \<^verbatim>\<open>undefined\<close> (here \<open>None\<close>) when the
  state is null, and then no node is filtered out.
\<close>

function deleteFrom :: "string option \<Rightarrow> NodeItem list \<Rightarrow> NodeItem list" where
  "deleteFrom cid list =
     map (\<lambda>n. withChildren n (deleteFrom cid (children n)))
       (filter (\<lambda>n. Some (node_id n) \<noteq> cid) list)"
  by pat_completeness auto
termination
  by (relation "measure (\<lambda>(_, ts). size_list size ts)") (auto simp: size_children_member)

declare deleteFrom.simps [simp del]

function removeFrom :: "string option \<Rightarrow> NodeItem list \<Rightarrow> NodeItem list" where
  "removeFrom cid list =
     map (\<lambda>n. withChildren n (removeFrom cid (children n)))
       (filter (\<lambda>n. Some (node_id n) \<noteq> cid) list)"
  by pat_completeness auto
termination
  by (relation "measure (\<lambda>(_, ts). size_list size ts)") (auto simp: size_children_member)

declare removeFrom.simps [simp del]

text \<open>
  \<^verbatim>\<open>recalculateLayout\<close> of page.tsx: the loop over the list threads \<^verbatim>\<open>row\<close>; the
  children of a node are laid out starting at the node's own row.
\<close>

function recalculateLayout :: "NodeItem list \<Rightarrow> int \<Rightarrow> int \<Rightarrow> NodeItem list \<times> int" where
  "recalculateLayout [] startRow column = ([], startRow)"
| "recalculateLayout (node # rest) startRow column =
     (let (childrenWithLayout, nextRow) = recalculateLayout (children node) startRow (column + 1);
          nodeWithLayout = NodeItem (node_id node) (label node) childrenWithLayout
                             (parentId node) (isCut node) column startRow;
          (updated, final) = recalculateLayout rest (max (startRow + 1) nextRow) column
      in (nodeWithLayout # updated, final))"
  by pat_completeness auto
termination
  by (relation "measure (\<lambda>(ts, _, _). size_list size ts)")
     (auto simp: size_children_less less_SucI trans_less_add1)

text \<open>
  \<^verbatim>\<open>uuidv4\<close> is an external generator. A handler receives the sequence of values
  its calls return: \<open>uuidv4 k\<close> is the value of call number \<open>k\<close>, counted from
  0, made while the handler runs. \<^verbatim>\<open>deepClone\<close> evaluates the object literal left to right, so a node
  draws its id before its children draw theirs, and the children are cloned in order.
\<close>

function deepClone :: "(nat \<Rightarrow> string) \<Rightarrow> nat \<Rightarrow> NodeItem \<Rightarrow> NodeItem \<times> nat"
  and deepCloneChildren :: "(nat \<Rightarrow> string) \<Rightarrow> nat \<Rightarrow> NodeItem list \<Rightarrow> NodeItem list \<times> nat" where
  "deepClone uuidv4 k node =
     (let (cs, k') = deepCloneChildren uuidv4 (Suc k) (children node)
      in (NodeItem (uuidv4 k) (label node) cs (parentId node) (Some False) 0 0, k'))"
| "deepCloneChildren uuidv4 k [] = ([], k)"
| "deepCloneChildren uuidv4 k (n # ns) =
     (let (n', k1) = deepClone uuidv4 k n;
          (ns', k2) = deepCloneChildren uuidv4 k1 ns
      in (n' # ns', k2))"
  by pat_completeness auto
termination
  by (relation "measure (\<lambda>x. case x of
         Inl (_, _, n) \<Rightarrow> 2 * size n
       | Inr (_, _, ns) \<Rightarrow> 2 * size_list size ns + 1)")
     (auto simp: size_children_less2)

text \<open>
  \<^verbatim>\<open>String.prototype.trim\<close> strips the ECMAScript white space and line terminator
  code units from both ends; the empty string is the only falsy string.
\<close>

definition isWhiteSpace :: "nat \<Rightarrow> bool" where
  "isWhiteSpace c \<longleftrightarrow>
     c \<in> {9, 10, 11, 12, 13, 32, 160, 5760, 8232, 8233, 8239, 8287, 12288, 65279}
     \<or> (8192 \<le> c \<and> c \<le> 8202)"

definition trim :: "jsstring \<Rightarrow> jsstring" where
  "trim s = rev (dropWhile isWhiteSpace (rev (dropWhile isWhiteSpace s)))"

section \<open>Event handlers of page.tsx\<close>

definition handleCloseContextMenu :: "State \<Rightarrow> State" where
  "handleCloseContextMenu s = s\<lparr>contextMenu := None\<rparr>"

definition handleAddChild :: "State \<Rightarrow> State" where
  "handleAddChild s = handleCloseContextMenu (s\<lparr>modalOpen := True\<rparr>)"

text \<open>The right click stores the clicked node object and the pointer position (top, left).\<close>

definition handleRightClick :: "int \<times> int \<Rightarrow> NodeItem \<Rightarrow> State \<Rightarrow> State" where
  "handleRightClick pos node s = s\<lparr>contextNode := Some node, contextMenu := Some pos\<rparr>"

text \<open>The text field of the modal: \<^verbatim>\<open>onChange={(e) => setNewLabel(e.target.value)}\<close>.\<close>

definition setNewLabel :: "jsstring \<Rightarrow> State \<Rightarrow> State" where
  "setNewLabel l s = s\<lparr>newLabel := l\<rparr>"

definition handleModalSubmit :: "(nat \<Rightarrow> string) \<Rightarrow> State \<Rightarrow> State" where
  "handleModalSubmit uuidv4 s =
     (case contextNode s of
        None \<Rightarrow> s
      | Some cn \<Rightarrow>
          if trim (newLabel s) = [] then s
          else
            let newChild = NodeItem (uuidv4 0) (newLabel s) [] (Some (node_id cn)) None 0 0;
                updatedTree = updateTree (nodes s) (node_id cn)
                                (\<lambda>n. withChildren n (children n @ [newChild]))
            in s\<lparr>nodes := fst (recalculateLayout updatedTree 0 0),
                 newLabel := [], modalOpen := False\<rparr>)"

definition handleCut :: "State \<Rightarrow> State" where
  "handleCut s =
     (case contextNode s of
        None \<Rightarrow> s
      | Some cn \<Rightarrow>
          if node_id cn = ''root'' then s
          else
            let cutNodeMarked = markCutNodes cn
            in s\<lparr>nodes := replaceNodeInTree (nodes s) (node_id cutNodeMarked) cutNodeMarked,
                 clipboard := Some (Cut, cutNodeMarked),
                 contextMenu := None\<rparr>)"

definition handleCopy :: "State \<Rightarrow> State" where
  "handleCopy s =
     (case contextNode s of
        None \<Rightarrow> s
      | Some cn \<Rightarrow>
          if node_id cn = ''root'' then s
          else handleCloseContextMenu (s\<lparr>clipboard := Some (Copy, cn)\<rparr>))"

definition handleDelete :: "State \<Rightarrow> State" where
  "handleDelete s =
     (let cleaned = deleteFrom (map_option node_id (contextNode s)) (nodes s)
      in handleCloseContextMenu (s\<lparr>nodes := fst (recalculateLayout cleaned 0 0)\<rparr>))"

definition handlePaste :: "(nat \<Rightarrow> string) \<Rightarrow> State \<Rightarrow> State" where
  "handlePaste uuidv4 s =
     (case contextNode s of
        None \<Rightarrow> s
      | Some cn \<Rightarrow>
         (case clipboard s of
            None \<Rightarrow> s
          | Some (mode, cnode) \<Rightarrow>
              if node_id cn = node_id cnode then s
              else
                let removed = (if mode = Cut then removeFrom (Some (node_id cnode)) (nodes s)
                               else nodes s);
                    nodeToPaste = (if mode = Copy then fst (deepClone uuidv4 0 cnode)
                                   else clearCutFlags cnode);
                    updatedTree = updateTree removed (node_id cn)
                                    (\<lambda>n. withChildren n (children n @ [nodeToPaste]))
                in handleCloseContextMenu
                     (s\<lparr>nodes := fst (recalculateLayout updatedTree 0 0), clipboard := None\<rparr>)))"

text \<open>
  The context menu of page.tsx. The paste item is disabled while the clipboard is empty,
  the delete item while there is no context node, the context node is the root, or it
  has children. A disabled menu item does not call its \<^verbatim>\<open>onClick\<close>.
\<close>

definition pasteDisabled :: "State \<Rightarrow> bool" where
  "pasteDisabled s \<longleftrightarrow> clipboard s = None"

definition deleteDisabled :: "State \<Rightarrow> bool" where
  "deleteDisabled s \<longleftrightarrow>
     (case contextNode s of
        None \<Rightarrow> True
      | Some cn \<Rightarrow> node_id cn = ''root'' \<or> length (children cn) > 0)"

definition clickDelete :: "State \<Rightarrow> State" where
  "clickDelete s = (if deleteDisabled s then s else handleDelete s)"

definition clickPaste :: "(nat \<Rightarrow> string) \<Rightarrow> State \<Rightarrow> State" where
  "clickPaste uuidv4 s = (if pasteDisabled s then s else handlePaste uuidv4 s)"

section \<open>The second variant of the editor (the unnamed source file)\<close>

text \<open>
  The unnamed file holds another version of the same component. It differs in four
  places: the layout starts a node's children one row below the node; cut marks only the
  cut node and keeps the unmarked object in the clipboard; paste inserts first and
  removes afterwards; and the delete item of the menu is never disabled.

  Its updater in paste pushes onto the children array of the matched node instead of
  replacing the array. The shallow copy that \<^verbatim>\<open>updateTree\<close> makes shares this array
  with the node of the previous forest, which is discarded, so for the new forest the
  push is an append. The stored context node is an object of the previous forest (the
  right click takes it from the rendered nodes) and shares the array as well: when the
  target is found, the context node gains the pasted node as its last child. Where a
  cut node is pasted below itself, the real objects become cyclic; the model keeps the
  pasted node as it was before the push.
\<close>

function recalculateLayout_p000 :: "NodeItem list \<Rightarrow> int \<Rightarrow> int \<Rightarrow> NodeItem list \<times> int" where
  "recalculateLayout_p000 [] startRow column = ([], startRow)"
| "recalculateLayout_p000 (node # rest) startRow column =
     (let (childrenWithLayout, nextRow) =
            recalculateLayout_p000 (children node) (startRow + 1) (column + 1);
          nodeWithLayout = NodeItem (node_id node) (label node) childrenWithLayout
                             (parentId node) (isCut node) column startRow;
          (updated, final) = recalculateLayout_p000 rest (max (startRow + 1) nextRow) column
      in (nodeWithLayout # updated, final))"
  by pat_completeness auto
termination
  by (relation "measure (\<lambda>(ts, _, _). size_list size ts)")
     (auto simp: size_children_less less_SucI trans_less_add1)

definition handleModalSubmit_p000 :: "(nat \<Rightarrow> string) \<Rightarrow> State \<Rightarrow> State" where
  "handleModalSubmit_p000 uuidv4 s =
     (case contextNode s of
        None \<Rightarrow> s
      | Some cn \<Rightarrow>
          if trim (newLabel s) = [] then s
          else
            let newChild = NodeItem (uuidv4 0) (newLabel s) [] (Some (node_id cn)) None 0 0;
                updatedTree = updateTree (nodes s) (node_id cn)
                                (\<lambda>n. withChildren n (children n @ [newChild]))
            in s\<lparr>nodes := fst (recalculateLayout_p000 updatedTree 0 0),
                 newLabel := [], modalOpen := False\<rparr>)"

definition handleCut_p000 :: "State \<Rightarrow> State" where
  "handleCut_p000 s =
     (case contextNode s of
        None \<Rightarrow> s
      | Some cn \<Rightarrow>
          if node_id cn = ''root'' then s
          else
            let updated = updateTree (nodes s) (node_id cn)
                            (\<lambda>n. NodeItem (node_id n) (label n) (children n) (parentId n)
                                    (Some True) (col n) (row n))
            in handleCloseContextMenu (s\<lparr>clipboard := Some (Cut, cn), nodes := updated\<rparr>))"

definition handleDelete_p000 :: "State \<Rightarrow> State" where
  "handleDelete_p000 s =
     (let cleaned = deleteFrom (map_option node_id (contextNode s)) (nodes s)
      in handleCloseContextMenu (s\<lparr>nodes := fst (recalculateLayout_p000 cleaned 0 0)\<rparr>))"

definition handlePaste_p000 :: "(nat \<Rightarrow> string) \<Rightarrow> State \<Rightarrow> State" where
  "handlePaste_p000 uuidv4 s =
     (case contextNode s of
        None \<Rightarrow> s
      | Some cn \<Rightarrow>
         (case clipboard s of
            None \<Rightarrow> s
          | Some (mode, cnode) \<Rightarrow>
              if node_id cn = node_id cnode then s
              else
                let pastedNode = (if mode = Copy then fst (deepClone uuidv4 0 cnode) else cnode);
                    updated = updateTree (nodes s) (node_id cn)
                                (\<lambda>n. withChildren n (children n @ [pastedNode]));
                    nextTree = (if mode = Cut then removeFrom (Some (node_id cnode)) updated
                                else updated);
                    pushed = (if node_id cn \<in> node_id ` set (flattenTree (nodes s))
                              then withChildren cn (children cn @ [pastedNode]) else cn)
                in handleCloseContextMenu
                     (s\<lparr>contextNode := Some pushed, clipboard := None,
                        nodes := fst (recalculateLayout_p000 nextTree 0 0)\<rparr>)))"

section \<open>Looking nodes up by id\<close>

text \<open>
  \<^verbatim>\<open>renderConnectors\<close> finds a node by id with
  \<^verbatim>\<open>flattenTree(nodes).find(n => n.id === id)\<close>. The properties below describe a
  forest by what this lookup returns for every id: the label, the \<^verbatim>\<open>parentId\<close>
  field, the cut flag and the ids of the children in order. Coordinates are left out,
  since every structural change is followed by a new layout.
\<close>

definition findById :: "string \<Rightarrow> NodeItem list \<Rightarrow> NodeItem option" where
  "findById j tree = List.find (\<lambda>n. node_id n = j) (flattenTree tree)"

type_synonym info = "jsstring \<times> string option \<times> bool option \<times> string list"

definition info :: "NodeItem \<Rightarrow> info" where
  "info n = (label n, parentId n, isCut n, map node_id (children n))"

definition lookup :: "string \<Rightarrow> NodeItem list \<Rightarrow> info option" where
  "lookup j tree = map_option info (findById j tree)"

definition ids :: "NodeItem list \<Rightarrow> string list" where
  "ids tree = map node_id (flattenTree tree)"

text \<open>Changes to one entry of the lookup.\<close>

fun addKid :: "string \<Rightarrow> info \<Rightarrow> info" where
  "addKid k (l, p, c, ks) = (l, p, c, ks @ [k])"

fun dropKid :: "string \<Rightarrow> info \<Rightarrow> info" where
  "dropKid k (l, p, c, ks) = (l, p, c, filter (\<lambda>j. j \<noteq> k) ks)"

fun setCut :: "bool \<Rightarrow> info \<Rightarrow> info" where
  "setCut b (l, p, c, ks) = (l, p, Some b, ks)"

section \<open>Stated properties and example states\<close>

text \<open>
  The \<^verbatim>\<open>parentId\<close> of every child names the node whose \<^verbatim>\<open>children\<close> list holds it.
\<close>

definition parentIdConsistent :: "NodeItem list \<Rightarrow> bool" where
  "parentIdConsistent tree \<longleftrightarrow>
     list_all (\<lambda>n. list_all (\<lambda>c. parentId c = Some (node_id n)) (children n)) (flattenTree tree)"

text \<open>
  Rows. A node is a leaf when it has no children. One sibling lies before another when
  every row of its subtree is smaller than every row of the other's subtree; a list of
  siblings is ordered when each lies before all later ones, so that their subtrees
  occupy disjoint row ranges. \<open>rowsFrom r m\<close> are the \<open>m\<close> consecutive rows
  from \<open>r\<close> on.
\<close>

definition isLeaf :: "NodeItem \<Rightarrow> bool" where
  "isLeaf n \<longleftrightarrow> children n = []"

definition rowsBefore :: "NodeItem \<Rightarrow> NodeItem \<Rightarrow> bool" where
  "rowsBefore a b \<longleftrightarrow>
     list_all (\<lambda>x. list_all (\<lambda>y. row x < row y) (flattenTree [b])) (flattenTree [a])"

definition siblingsOrdered :: "NodeItem list \<Rightarrow> bool" where
  "siblingsOrdered ns \<longleftrightarrow> sorted_wrt rowsBefore ns"

definition rowsFrom :: "int \<Rightarrow> nat \<Rightarrow> int list" where
  "rowsFrom r m = map (\<lambda>k. r + int k) [0..<m]"

definition leaves :: "NodeItem list \<Rightarrow> nat" where
  "leaves ts = length (filter isLeaf (flattenTree ts))"

text \<open>
  The shape and the labels of a subtree, without ids, flags and coordinates: two subtrees
  are isomorphic in shape and labels when they have the same label tree.
\<close>

datatype 'a rose = Rose 'a "'a rose list"

fun labelTree :: "NodeItem \<Rightarrow> jsstring rose" where
  "labelTree (NodeItem i l cs p c co ro) = Rose l (map labelTree cs)"

text \<open>
  A user adds a child by right-clicking the target, choosing the add item, typing the
  label and submitting the modal; \<open>newId\<close> is what \<^verbatim>\<open>uuidv4()\<close> returns.
\<close>

definition addNode :: "string \<Rightarrow> NodeItem \<Rightarrow> jsstring \<Rightarrow> State \<Rightarrow> State" where
  "addNode newId target l s =
     handleModalSubmit (\<lambda>k. newId)
       (setNewLabel l (handleAddChild (handleRightClick (0, 0) target s)))"

text \<open>
  The scenario of the specification: start from the root, add A and B under it, cut A,
  paste it under B.
\<close>

definition exRoot :: NodeItem where
  "exRoot = NodeItem ''root'' RootLabel [] None None 0 0"

definition exA :: NodeItem where
  "exA = NodeItem ''a'' [65] [] (Some ''root'') None 1 0"

definition exB :: NodeItem where
  "exB = NodeItem ''b'' [66] [] (Some ''root'') None 1 1"

definition exRootA :: NodeItem where
  "exRootA = NodeItem ''root'' RootLabel [exA] None None 0 0"

definition exRootAB :: NodeItem where
  "exRootAB = NodeItem ''root'' RootLabel [exA, exB] None None 0 0"

definition exStateA :: State where
  "exStateA = addNode ''a'' exRoot [65] initialState"

text \<open>The modal with the label typed in, before it is submitted.\<close>

definition exStateTyping :: State where
  "exStateTyping = setNewLabel [66] (handleAddChild (handleRightClick (0, 0) exRootA exStateA))"

definition exStateBlank :: State where
  "exStateBlank = setNewLabel [32, 9] (handleAddChild (handleRightClick (0, 0) exRootA exStateA))"

definition exStateAB :: State where
  "exStateAB = addNode ''b'' exRootA [66] exStateA"

definition exStateAClicked :: State where
  "exStateAClicked = handleRightClick (0, 0) exA exStateAB"

definition exStateBClicked :: State where
  "exStateBClicked = handleRightClick (0, 0) exB exStateAB"

definition exStateCut :: State where
  "exStateCut = handleCut exStateAClicked"

definition exStateMoved :: State where
  "exStateMoved = handlePaste (\<lambda>k. ''c'') (handleRightClick (0, 0) exB exStateCut)"

definition exStateRootClicked :: State where
  "exStateRootClicked = handleRightClick (0, 0) exRoot initialState"

text \<open>Cutting A in the forest root[A] and pasting it back under the root.\<close>

definition exStateBack :: State where
  "exStateBack =
     handlePaste (\<lambda>k. ''c'')
       (handleRightClick (0, 0) (NodeItem ''root'' RootLabel [markCutNodes exA] None None 0 0)
          (handleCut (handleRightClick (0, 0) exA exStateA)))"

text \<open>The forest root[A[B]]: B is added under A.\<close>

definition exB2 :: NodeItem where
  "exB2 = NodeItem ''b'' [66] [] (Some ''a'') None 2 0"

definition exA2 :: NodeItem where
  "exA2 = NodeItem ''a'' [65] [exB2] (Some ''root'') None 1 0"

definition exStateDeep :: State where
  "exStateDeep = handleRightClick (0, 0) exA2 (addNode ''b'' exA [66] exStateA)"

definition exStateLost :: State where
  "exStateLost =
     handlePaste (\<lambda>k. ''c'')
       (handleRightClick (0, 0) (markCutNodes exB2) (handleCut exStateDeep))"

text \<open>Copies: A pasted under B, and A of root[A[B]] pasted under its own child B.\<close>

definition exUuid :: "nat \<Rightarrow> string" where
  "exUuid k = replicate (Suc k) CHR ''c''"

definition exStateCopyInside :: State where
  "exStateCopyInside = handlePaste exUuid (handleRightClick (0, 0) exB2 (handleCopy exStateDeep))"

definition exRootDeep :: NodeItem where
  "exRootDeep = NodeItem ''root'' RootLabel [exA2] None None 0 0"

definition exStateCopied :: State where
  "exStateCopied = handlePaste exUuid (handleRightClick (0, 0) exRootDeep (handleCopy exStateDeep))"

definition exStateCopied_p000 :: State where
  "exStateCopied_p000 =
     handlePaste_p000 exUuid (handleRightClick (0, 0) exRootDeep (handleCopy exStateDeep))"



text \<open>A forest with two levels below the root, for the layout.\<close>

definition exLayoutForest :: "NodeItem list" where
  "exLayoutForest =
     [NodeItem ''root'' RootLabel
        [NodeItem ''a'' [65]
           [NodeItem ''b'' [66] [] (Some ''a'') None 0 0,
            NodeItem ''c'' [67] [] (Some ''a'') None 0 0] (Some ''root'') None 0 0,
         NodeItem ''d'' [68] [] (Some ''root'') None 0 0] None None 0 0]"

definition exStateSelfPaste :: State where
  "exStateSelfPaste = handleRightClick (0, 0) (markCutNodes exA) exStateCut"

text \<open>The updater of add-child and paste: \<^verbatim>\<open>n.children = [...n.children, c]\<close>.\<close>

abbreviation appendChild :: "NodeItem \<Rightarrow> NodeItem \<Rightarrow> NodeItem" where
  "appendChild c \<equiv> (\<lambda>n. withChildren n (children n @ [c]))"

text \<open>The updater of cut in the second variant: \<^verbatim>\<open>n.isCut = true\<close>.\<close>

abbreviation flagCut :: "NodeItem \<Rightarrow> NodeItem" where
  "flagCut \<equiv> (\<lambda>n. NodeItem (node_id n) (label n) (children n) (parentId n) (Some True)
                    (col n) (row n))"

section \<open>Basic facts\<close>

lemma withChildren_sel [simp]:
  "node_id (withChildren n cs) = node_id n"
  "label (withChildren n cs) = label n"
  "children (withChildren n cs) = cs"
  "parentId (withChildren n cs) = parentId n"
  "isCut (withChildren n cs) = isCut n"
  "col (withChildren n cs) = col n"
  "row (withChildren n cs) = row n"
  by (simp_all add: withChildren_def)

lemma withChildren_same [simp]: "withChildren n (children n) = n"
  by (cases n) (simp add: withChildren_def)

lemma walk_eq: "walk n = n # flattenTree (children n)"
  by (cases n) (simp add: flattenTree_def)

lemma flattenTree_Nil [simp]: "flattenTree [] = []"
  by (simp add: flattenTree_def)

lemma flattenTree_Cons [simp]:
  "flattenTree (n # ns) = n # flattenTree (children n) @ flattenTree ns"
  by (simp add: flattenTree_def walk_eq)

lemma flattenTree_append [simp]: "flattenTree (xs @ ys) = flattenTree xs @ flattenTree ys"
  by (simp add: flattenTree_def)

lemma ids_Nil [simp]: "ids [] = []"
  by (simp add: ids_def)

lemma ids_Cons [simp]: "ids (n # ns) = node_id n # ids (children n) @ ids ns"
  by (simp add: ids_def)

lemma ids_append [simp]: "ids (xs @ ys) = ids xs @ ids ys"
  by (simp add: ids_def)

lemma forest_induct [case_names Nil Cons]:
  assumes "P []" and "\<And>n ns. P (children n) \<Longrightarrow> P ns \<Longrightarrow> P (n # ns)"
  shows "P ts"
proof (induction ts rule: measure_induct_rule [where f = "size_list size"])
  case (less ts)
  show ?case
  proof (cases ts)
    case Nil
    then show ?thesis using assms(1) by simp
  next
    case (Cons n ns)
    have "P (children n)"
      using less [of "children n"] Cons size_children_less [of n] by simp
    moreover have "P ns"
      using less [of ns] Cons by simp
    ultimately show ?thesis using assms(2) Cons by simp
  qed
qed

lemma updateTree_Nil [simp]: "updateTree [] i u = []"
  by (simp add: updateTree.simps [of "[]"])

lemma updateTree_Cons [simp]:
  "updateTree (n # ns) i u =
     (if node_id n = i then u n
      else if children n \<noteq> [] then withChildren n (updateTree (children n) i u)
      else n) # updateTree ns i u"
  by (simp add: updateTree.simps [of "n # ns"] updateTree.simps [of ns])

lemma replaceNodeInTree_Nil [simp]: "replaceNodeInTree [] i u = []"
  by (simp add: replaceNodeInTree.simps [of "[]"])

lemma replaceNodeInTree_Cons [simp]:
  "replaceNodeInTree (n # ns) i u =
     (if node_id n = i then u
      else if children n \<noteq> [] then withChildren n (replaceNodeInTree (children n) i u)
      else n) # replaceNodeInTree ns i u"
  by (simp add: replaceNodeInTree.simps [of "n # ns"] replaceNodeInTree.simps [of ns])

lemma deleteFrom_Nil [simp]: "deleteFrom c [] = []"
  by (simp add: deleteFrom.simps [of c "[]"])

lemma deleteFrom_Cons [simp]:
  "deleteFrom c (n # ns) =
     (if Some (node_id n) = c then deleteFrom c ns
      else withChildren n (deleteFrom c (children n)) # deleteFrom c ns)"
  by (simp add: deleteFrom.simps [of c "n # ns"] deleteFrom.simps [of c ns])

lemma removeFrom_Nil [simp]: "removeFrom c [] = []"
  by (simp add: removeFrom.simps [of c "[]"])

lemma removeFrom_Cons [simp]:
  "removeFrom c (n # ns) =
     (if Some (node_id n) = c then removeFrom c ns
      else withChildren n (removeFrom c (children n)) # removeFrom c ns)"
  by (simp add: removeFrom.simps [of c "n # ns"] removeFrom.simps [of c ns])

lemma removeFrom_deleteFrom: "removeFrom c ts = deleteFrom c ts"
  by (induction ts rule: forest_induct) simp_all

lemma find_append:
  "List.find P (xs @ ys) = (case List.find P xs of None \<Rightarrow> List.find P ys | Some x \<Rightarrow> Some x)"
  by (induction xs) simp_all

lemma lookup_Nil [simp]: "lookup j [] = None"
  by (simp add: lookup_def findById_def)

lemma lookup_Cons [simp]:
  "lookup j (n # ns) =
     (if node_id n = j then Some (info n)
      else case lookup j (children n) of None \<Rightarrow> lookup j ns | Some x \<Rightarrow> Some x)"
  by (simp add: lookup_def findById_def find_append split: option.splits)

lemma lookup_None_iff: "lookup j ts = None \<longleftrightarrow> j \<notin> set (ids ts)"
  by (induction ts rule: forest_induct) (auto split: option.splits)

lemma lookup_append:
  "lookup j (xs @ ys) = (case lookup j xs of None \<Rightarrow> lookup j ys | Some x \<Rightarrow> Some x)"
  by (simp add: lookup_def findById_def find_append split: option.splits)

lemma info_withChildren [simp]:
  "info (withChildren n cs) = (label n, parentId n, isCut n, map node_id cs)"
  by (simp add: info_def)

lemma member_ids: "m \<in> set (flattenTree ts) \<Longrightarrow> node_id m \<in> set (ids ts)"
  by (simp add: ids_def)

lemma top_in_flatten: "set ts \<subseteq> set (flattenTree ts)"
  by (induction ts) auto

lemma top_ids_subset: "set (map node_id ts) \<subseteq> set (ids ts)"
  using top_in_flatten [of ts] by (auto simp: ids_def)

lemma lookup_kids_subset:
  "lookup j ts = Some (l, p, c, ks) \<Longrightarrow> set ks \<subseteq> set (ids ts)"
proof (induction ts rule: forest_induct)
  case Nil
  then show ?case by simp
next
  case (Cons n ns)
  then show ?case
    using top_ids_subset [of "children n"]
    by (auto simp: info_def split: if_splits option.splits)
qed

lemma dropKid_absent:
  "lookup j ts = Some x \<Longrightarrow> i \<notin> set (ids ts) \<Longrightarrow> dropKid i x = x"
  using lookup_kids_subset [of j ts] by (cases x) (auto simp: filter_id_conv)

subsection \<open>The layout keeps ids and lookups\<close>

lemma layout_fst_Cons:
  "fst (recalculateLayout (n # ns) r c) =
     NodeItem (node_id n) (label n) (fst (recalculateLayout (children n) r (c + 1)))
       (parentId n) (isCut n) c r
     # fst (recalculateLayout ns (max (r + 1) (snd (recalculateLayout (children n) r (c + 1)))) c)"
  by (simp add: case_prod_beta Let_def)

lemma layout_snd_Cons:
  "snd (recalculateLayout (n # ns) r c) =
     snd (recalculateLayout ns (max (r + 1) (snd (recalculateLayout (children n) r (c + 1)))) c)"
  by (simp add: case_prod_beta Let_def)

lemma layout_top_ids: "map node_id (fst (recalculateLayout ts r c)) = map node_id ts"
  by (induction ts arbitrary: r c rule: forest_induct)
     (simp_all add: layout_fst_Cons del: recalculateLayout.simps(2))

lemma layout_ids: "ids (fst (recalculateLayout ts r c)) = ids ts"
  by (induction ts arbitrary: r c rule: forest_induct)
     (simp_all add: layout_fst_Cons del: recalculateLayout.simps(2))

lemma layout_lookup: "lookup j (fst (recalculateLayout ts r c)) = lookup j ts"
  by (induction ts arbitrary: r c rule: forest_induct)
     (simp_all add: layout_fst_Cons info_def layout_top_ids del: recalculateLayout.simps(2)
        cong: option.case_cong)

subsection \<open>Appending a child with \<^verbatim>\<open>updateTree\<close>\<close>

lemma updateTree_absent: "i \<notin> set (ids ts) \<Longrightarrow> updateTree ts i f = ts"
  by (induction ts rule: forest_induct) auto

lemma updateTree_top_ids: "map node_id (updateTree ts i (appendChild c)) = map node_id ts"
  by (induction ts rule: forest_induct) auto


lemma updateTree_ids_set_if:
  "set (ids (updateTree ts i (appendChild c))) =
     set (ids ts) \<union> (if i \<in> set (ids ts) then set (ids [c]) else {})"
  by (induction ts rule: forest_induct) auto

lemma updateTree_distinct:
  "distinct (ids ts) \<Longrightarrow> distinct (ids [c]) \<Longrightarrow> set (ids [c]) \<inter> set (ids ts) = {} \<Longrightarrow>
     distinct (ids (updateTree ts i (appendChild c)))"
proof (induction ts rule: forest_induct)
  case Nil
  then show ?case by simp
next
  case (Cons n ns)
  have a: "distinct (ids (updateTree (children n) i (appendChild c)))"
   and b: "distinct (ids (updateTree ns i (appendChild c)))"
    using Cons by auto
  show ?case
  proof (cases "i \<in> set (ids (n # ns))")
    case False
    then have "updateTree (n # ns) i (appendChild c) = n # ns"
      by (rule updateTree_absent)
    then show ?thesis using Cons.prems(1) by simp
  next
    case True
    show ?thesis
      using Cons.prems a b True
      by (auto simp: updateTree_ids_set_if updateTree_absent split: if_splits)
  qed
qed


lemma info_appendChild: "info (withChildren n (children n @ [c])) = addKid (node_id c) (info n)"
  by (simp add: info_def)

lemma lookup_not_in: "j \<notin> set (ids ts) \<Longrightarrow> lookup j ts = None"
  by (simp add: lookup_None_iff)

lemma lookup_in: "j \<in> set (ids ts) \<Longrightarrow> \<exists>x. lookup j ts = Some x"
  using lookup_None_iff [of j ts] by auto

lemma lookup_Cons_cases:
  "lookup j (n # ns) =
     (if j = node_id n then Some (info n)
      else if j \<in> set (ids (children n)) then lookup j (children n)
      else lookup j ns)"
  using lookup_in [of j "children n"] lookup_not_in [of j "children n"]
  by (auto split: option.splits)

lemma updateTree_lookup_gen:
  "distinct (ids ts) \<Longrightarrow> set (ids [c]) \<inter> set (ids ts) = {} \<Longrightarrow>
   lookup j (updateTree ts i (appendChild c)) =
     (if i \<notin> set (ids ts) then lookup j ts
      else if j = i then map_option (addKid (node_id c)) (lookup i ts)
      else if j \<in> set (ids ts) then lookup j ts
      else lookup j [c])"
proof (induction ts rule: forest_induct)
  case Nil
  then show ?case by simp
next
  case (Cons n ns)
  let ?f = "appendChild c"
  have dc: "distinct (ids (children n))" and dn: "distinct (ids ns)"
   and nn: "node_id n \<notin> set (ids (children n))" "node_id n \<notin> set (ids ns)"
   and cn: "\<And>x. x \<in> set (ids (children n)) \<Longrightarrow> x \<notin> set (ids ns)"
    using Cons.prems(1) by auto
  have ic: "set (ids [c]) \<inter> set (ids (children n)) = {}"
   and ins: "set (ids [c]) \<inter> set (ids ns) = {}"
    using Cons.prems(2) by (auto simp: ids_Cons [of n ns] simp del: ids_Cons)
  have c_out: "\<And>x. x \<in> set (ids [c]) \<Longrightarrow>
      x \<noteq> node_id n \<and> x \<notin> set (ids (children n)) \<and> x \<notin> set (ids ns)"
    using Cons.prems(2) by (auto simp: ids_Cons [of n ns] simp del: ids_Cons)
  note ihc = Cons.IH(1) [OF dc ic] and ihn = Cons.IH(2) [OF dn ins]
  have lc_none: "lookup j [c] = None" if "j \<notin> set (ids [c])"
    using that by (rule lookup_not_in)
  have lapp: "lookup j (children n @ [c]) =
      (if j \<in> set (ids (children n)) then lookup j (children n) else lookup j [c])"
    using lookup_in [of j "children n"] lookup_not_in [of j "children n"]
    by (auto simp: lookup_append simp del: lookup_Cons)
  consider (top) "node_id n = i"
    | (kid) "node_id n \<noteq> i" "i \<in> set (ids (children n))"
    | (rest) "node_id n \<noteq> i" "i \<notin> set (ids (children n))" "i \<in> set (ids ns)"
    | (none) "i \<notin> set (ids (n # ns))"
    by auto
  then show ?case
  proof cases
    case top
    then have "i \<notin> set (ids ns)" using nn by auto
    then have u: "updateTree ns i ?f = ns" by (rule updateTree_absent)
    have eq: "updateTree (n # ns) i ?f = withChildren n (children n @ [c]) # ns"
      using top u by simp
    show ?thesis
      using top nn cn c_out [of j] lc_none lookup_not_in [of j ns]
      by (auto simp: eq lookup_Cons_cases [of _ _ ns] ids_Cons [of n ns] lapp info_def
            simp del: lookup_Cons updateTree_Cons ids_Cons)
  next
    case kid
    then have "i \<notin> set (ids ns)" using cn by auto
    then have u: "updateTree ns i ?f = ns" by (rule updateTree_absent)
    have ne: "children n \<noteq> []" using kid(2) by auto
    have eq: "updateTree (n # ns) i ?f = withChildren n (updateTree (children n) i ?f) # ns"
      using kid(1) u ne by simp
    have idsU: "set (ids (updateTree (children n) i ?f)) = set (ids (children n)) \<union> set (ids [c])"
      using kid(2) by (simp add: updateTree_ids_set_if del: ids_Cons)
    show ?thesis
      using kid nn cn [of j] cn [of i] ihc c_out [of j] lc_none lookup_not_in [of j ns]
      by (auto simp: eq lookup_Cons_cases [of _ _ ns] ids_Cons [of n ns] idsU info_def updateTree_top_ids
            simp del: lookup_Cons updateTree_Cons ids_Cons)
  next
    case rest
    have u: "updateTree (children n) i ?f = children n"
      using rest(2) by (rule updateTree_absent)
    have eq: "updateTree (n # ns) i ?f = n # updateTree ns i ?f"
      using rest(1) u by simp
    show ?thesis
      using rest nn cn [of j] ihn c_out [of j] lc_none
      by (auto simp: eq lookup_Cons_cases [of _ n] ids_Cons [of n ns]
            simp del: lookup_Cons updateTree_Cons ids_Cons)
  next
    case none
    then have "updateTree (n # ns) i ?f = n # ns"
      by (rule updateTree_absent)
    then show ?thesis using none by simp
  qed
qed


lemma subtree_ids_subset: "N \<in> set (flattenTree ts) \<Longrightarrow> set (ids [N]) \<subseteq> set (ids ts)"
proof (induction ts rule: forest_induct)
  case Nil
  then show ?case by simp
next
  case (Cons n ns)
  then show ?case by auto
qed

lemma lookup_subtree:
  "distinct (ids ts) \<Longrightarrow> N \<in> set (flattenTree ts) \<Longrightarrow> j \<in> set (ids [N]) \<Longrightarrow>
     lookup j ts = lookup j [N]"
proof (induction ts rule: forest_induct)
  case Nil
  then show ?case by simp
next
  case (Cons n ns)
  have dc: "distinct (ids (children n))" and dn: "distinct (ids ns)"
   and nn: "node_id n \<notin> set (ids (children n))" "node_id n \<notin> set (ids ns)"
   and cn: "\<And>x. x \<in> set (ids (children n)) \<Longrightarrow> x \<notin> set (ids ns)"
    using Cons.prems(1) by auto
  consider (top) "N = n" | (kid) "N \<in> set (flattenTree (children n))"
    | (rest) "N \<in> set (flattenTree ns)"
    using Cons.prems(2) by auto
  then show ?case
  proof cases
    case top
    then show ?thesis
      using Cons.prems(3) by (auto simp: lookup_Cons_cases simp del: lookup_Cons)
  next
    case kid
    then have j: "j \<in> set (ids (children n))"
      using subtree_ids_subset [OF kid] Cons.prems(3) by blast
    then have "j \<noteq> node_id n" using nn by auto
    then show ?thesis
      using j Cons.IH(1) [OF dc kid Cons.prems(3)]
      by (simp add: lookup_Cons_cases [of j n ns] del: lookup_Cons)
  next
    case rest
    then have j: "j \<in> set (ids ns)"
      using subtree_ids_subset [OF rest] Cons.prems(3) by blast
    then have "j \<noteq> node_id n" "j \<notin> set (ids (children n))" using nn cn by auto
    then show ?thesis
      using j Cons.IH(2) [OF dn rest Cons.prems(3)]
      by (simp add: lookup_Cons_cases [of j n ns] del: lookup_Cons)
  qed
qed

subsection \<open>Removing a subtree with \<^verbatim>\<open>deleteFrom\<close> and \<^verbatim>\<open>removeFrom\<close>\<close>

lemma deleteFrom_absent: "i \<notin> set (ids ts) \<Longrightarrow> deleteFrom (Some i) ts = ts"
  by (induction ts rule: forest_induct) auto

lemma deleteFrom_top_ids:
  "map node_id (deleteFrom (Some i) ts) = filter (\<lambda>j. j \<noteq> i) (map node_id ts)"
  by (induction ts) auto

lemma deleteFrom_ids:
  "distinct (ids ts) \<Longrightarrow> N \<in> set (flattenTree ts) \<Longrightarrow>
     ids (deleteFrom (Some (node_id N)) ts) = filter (\<lambda>j. j \<notin> set (ids [N])) (ids ts)"
proof (induction ts rule: forest_induct)
  case Nil
  then show ?case by simp
next
  case (Cons n ns)
  let ?i = "node_id N"
  have dc: "distinct (ids (children n))" and dn: "distinct (ids ns)"
   and nn: "node_id n \<notin> set (ids (children n))" "node_id n \<notin> set (ids ns)"
   and cn: "\<And>x. x \<in> set (ids (children n)) \<Longrightarrow> x \<notin> set (ids ns)"
    using Cons.prems(1) by auto
  have keep: "filter (\<lambda>j. j \<notin> S) xs = xs" if "set xs \<inter> S = {}" for xs :: "string list" and S
    using that by (induction xs) auto
  have drop: "filter (\<lambda>j. j \<notin> S) xs = []" if "set xs \<subseteq> S" for xs :: "string list" and S
    using that by (induction xs) auto
  consider (top) "N = n" | (kid) "N \<in> set (flattenTree (children n))"
    | (rest) "N \<in> set (flattenTree ns)"
    using Cons.prems(2) by auto
  then show ?case
  proof cases
    case top
    have "deleteFrom (Some ?i) ns = ns"
      using nn top by (intro deleteFrom_absent) simp
    moreover have "filter (\<lambda>j. j \<notin> set (ids [n])) (ids ns) = ids ns"
      using nn cn by (intro keep) auto
    moreover have "filter (\<lambda>j. j \<notin> set (ids [n])) (ids (children n)) = []"
      by (intro drop) auto
    moreover have "node_id n \<in> set (ids [n])" by simp
    ultimately show ?thesis using top by (simp del: ids_Cons add: ids_Cons [of n ns])
  next
    case kid
    have sub: "set (ids [N]) \<subseteq> set (ids (children n))"
      by (rule subtree_ids_subset [OF kid])
    then have ne: "?i \<noteq> node_id n" and nins: "?i \<notin> set (ids ns)" using nn cn by auto
    have "deleteFrom (Some ?i) ns = ns"
      using nins by (rule deleteFrom_absent)
    moreover have "filter (\<lambda>j. j \<notin> set (ids [N])) (ids ns) = ids ns"
      using sub cn by (intro keep) auto
    moreover have "node_id n \<notin> set (ids [N])" using sub nn by auto
    ultimately show ?thesis
      using ne Cons.IH(1) [OF dc kid] by (simp del: ids_Cons add: ids_Cons [of _ ns])
  next
    case rest
    have sub: "set (ids [N]) \<subseteq> set (ids ns)"
      by (rule subtree_ids_subset [OF rest])
    then have ne: "?i \<noteq> node_id n" and nins: "?i \<notin> set (ids (children n))" using nn cn by auto
    have "deleteFrom (Some ?i) (children n) = children n"
      using nins by (rule deleteFrom_absent)
    moreover have "filter (\<lambda>j. j \<notin> set (ids [N])) (ids (children n)) = ids (children n)"
      using sub cn by (intro keep) auto
    moreover have "node_id n \<notin> set (ids [N])" using sub nn by auto
    ultimately show ?thesis
      using ne Cons.IH(2) [OF dn rest]
      by (simp del: ids_Cons add: ids_Cons [of _ ns] ids_Cons [of _ "deleteFrom (Some ?i) ns"])
  qed
qed

lemma deleteFrom_lookup:
  "distinct (ids ts) \<Longrightarrow> N \<in> set (flattenTree ts) \<Longrightarrow>
     lookup j (deleteFrom (Some (node_id N)) ts) =
       (if j \<in> set (ids [N]) then None else map_option (dropKid (node_id N)) (lookup j ts))"
proof (induction ts rule: forest_induct)
  case Nil
  then show ?case by simp
next
  case (Cons n ns)
  let ?i = "node_id N"
  have dc: "distinct (ids (children n))" and dn: "distinct (ids ns)"
   and nn: "node_id n \<notin> set (ids (children n))" "node_id n \<notin> set (ids ns)"
   and cn: "\<And>x. x \<in> set (ids (children n)) \<Longrightarrow> x \<notin> set (ids ns)"
    using Cons.prems(1) by auto
  have dk: "map_option (dropKid ?i) (lookup j xs) = lookup j xs" if "?i \<notin> set (ids xs)" for xs
    using that dropKid_absent [of j xs _ ?i] by (cases "lookup j xs") auto
  consider (top) "N = n" | (kid) "N \<in> set (flattenTree (children n))"
    | (rest) "N \<in> set (flattenTree ns)"
    using Cons.prems(2) by auto
  then show ?case
  proof cases
    case top
    have e: "deleteFrom (Some ?i) ns = ns"
      using nn top by (intro deleteFrom_absent) simp
    have "?i \<notin> set (ids ns)" using nn top by simp
    note d = dk [OF this]
    show ?thesis
      using top nn cn [of j] e d lookup_not_in [of j ns]
      by (auto simp: lookup_Cons_cases [of _ n ns] ids_Cons [of n "[]"] simp del: lookup_Cons ids_Cons)
  next
    case kid
    have sub: "set (ids [N]) \<subseteq> set (ids (children n))"
      by (rule subtree_ids_subset [OF kid])
    then have ne: "?i \<noteq> node_id n" and nins: "?i \<notin> set (ids ns)" using nn cn by auto
    have e: "deleteFrom (Some ?i) ns = ns"
      using nins by (rule deleteFrom_absent)
    have idsD: "set (ids (deleteFrom (Some ?i) (children n))) = set (ids (children n)) - set (ids [N])"
      by (simp add: deleteFrom_ids [OF dc kid] del: ids_Cons) auto
    have nN: "node_id n \<notin> set (ids [N])" using sub nn by auto
    show ?thesis
      using ne nn cn [of j] e dk [OF nins] sub nN Cons.IH(1) [OF dc kid] lookup_not_in [of j ns]
      by (auto simp: lookup_Cons_cases [of _ _ ns] idsD info_def deleteFrom_top_ids
            simp del: lookup_Cons ids_Cons)
  next
    case rest
    have sub: "set (ids [N]) \<subseteq> set (ids ns)"
      by (rule subtree_ids_subset [OF rest])
    then have ne: "?i \<noteq> node_id n" and nins: "?i \<notin> set (ids (children n))" using nn cn by auto
    have e: "deleteFrom (Some ?i) (children n) = children n"
      using nins by (rule deleteFrom_absent)
    have nN: "node_id n \<notin> set (ids [N])" using sub nn by auto
    have top_keep: "dropKid ?i (info n) = info n"
      using nins top_ids_subset [of "children n"] by (auto simp: info_def filter_id_conv)
    show ?thesis
      using ne nn cn [of j] e dk [OF nins] sub nN top_keep Cons.IH(2) [OF dn rest]
      by (auto simp: lookup_Cons_cases [of _ _ "deleteFrom (Some ?i) ns"] lookup_Cons_cases [of _ _ ns]
            simp del: lookup_Cons ids_Cons)
  qed
qed


subsection \<open>Setting and clearing the cut flag\<close>

lemma markCutNodes_sel [simp]:
  "node_id (markCutNodes n) = node_id n"
  "label (markCutNodes n) = label n"
  "children (markCutNodes n) = map markCutNodes (children n)"
  "parentId (markCutNodes n) = parentId n"
  "isCut (markCutNodes n) = Some True"
  "col (markCutNodes n) = col n"
  "row (markCutNodes n) = row n"
  by (cases n; simp)+

lemma clearCutFlags_sel [simp]:
  "node_id (clearCutFlags n) = node_id n"
  "label (clearCutFlags n) = label n"
  "children (clearCutFlags n) = map clearCutFlags (children n)"
  "parentId (clearCutFlags n) = parentId n"
  "isCut (clearCutFlags n) = Some False"
  "col (clearCutFlags n) = col n"
  "row (clearCutFlags n) = row n"
  by (cases n; simp)+

lemma ids_map_markCutNodes: "ids (map markCutNodes ts) = ids ts"
  by (induction ts rule: forest_induct) simp_all

lemma ids_map_clearCutFlags: "ids (map clearCutFlags ts) = ids ts"
  by (induction ts rule: forest_induct) simp_all

lemma lookup_map_markCutNodes:
  "lookup j (map markCutNodes ts) = map_option (setCut True) (lookup j ts)"
  by (induction ts rule: forest_induct)
     (auto simp: info_def comp_def split: option.splits)

lemma lookup_map_clearCutFlags:
  "lookup j (map clearCutFlags ts) = map_option (setCut False) (lookup j ts)"
  by (induction ts rule: forest_induct)
     (auto simp: info_def comp_def split: option.splits)

subsection \<open>Replacing a node by a copy with the same ids\<close>

lemma replaceNodeInTree_absent: "i \<notin> set (ids ts) \<Longrightarrow> replaceNodeInTree ts i M = ts"
  by (induction ts rule: forest_induct) auto

lemma replaceNodeInTree_top_ids:
  "map node_id (replaceNodeInTree ts (node_id M) M) = map node_id ts"
  by (induction ts) auto

lemma replaceNodeInTree_ids:
  "distinct (ids ts) \<Longrightarrow> N \<in> set (flattenTree ts) \<Longrightarrow> node_id M = node_id N \<Longrightarrow>
   ids [M] = ids [N] \<Longrightarrow> ids (replaceNodeInTree ts (node_id N) M) = ids ts"
proof (induction ts rule: forest_induct)
  case Nil
  then show ?case by simp
next
  case (Cons n ns)
  let ?i = "node_id N"
  have dc: "distinct (ids (children n))" and dn: "distinct (ids ns)"
   and nn: "node_id n \<notin> set (ids (children n))" "node_id n \<notin> set (ids ns)"
   and cn: "\<And>x. x \<in> set (ids (children n)) \<Longrightarrow> x \<notin> set (ids ns)"
    using Cons.prems(1) by auto
  consider (top) "N = n" | (kid) "N \<in> set (flattenTree (children n))"
    | (rest) "N \<in> set (flattenTree ns)"
    using Cons.prems(2) by auto
  then show ?case
  proof cases
    case top
    have e: "replaceNodeInTree ns ?i M = ns"
      using nn top by (intro replaceNodeInTree_absent) simp
    have "ids (M # ns) = ids [M] @ ids ns" and "ids (n # ns) = ids [n] @ ids ns" by simp_all
    then show ?thesis using top e Cons.prems(4) by (simp del: ids_Cons)
  next
    case kid
    have sub: "set (ids [N]) \<subseteq> set (ids (children n))"
      by (rule subtree_ids_subset [OF kid])
    then have ne: "?i \<noteq> node_id n" and nins: "?i \<notin> set (ids ns)" using nn cn by auto
    have e: "replaceNodeInTree ns ?i M = ns"
      using nins by (rule replaceNodeInTree_absent)
    have c: "children n \<noteq> []" using kid by auto
    show ?thesis
      using ne e c Cons.IH(1) [OF dc kid Cons.prems(3,4)] by simp
  next
    case rest
    have sub: "set (ids [N]) \<subseteq> set (ids ns)"
      by (rule subtree_ids_subset [OF rest])
    then have ne: "?i \<noteq> node_id n" and nins: "?i \<notin> set (ids (children n))" using nn cn by auto
    have e: "replaceNodeInTree (children n) ?i M = children n"
      using nins by (rule replaceNodeInTree_absent)
    show ?thesis
      using ne e Cons.IH(2) [OF dn rest Cons.prems(3,4)] by simp
  qed
qed

lemma replaceNodeInTree_lookup:
  "distinct (ids ts) \<Longrightarrow> N \<in> set (flattenTree ts) \<Longrightarrow> node_id M = node_id N \<Longrightarrow>
   ids [M] = ids [N] \<Longrightarrow>
   lookup j (replaceNodeInTree ts (node_id N) M) =
     (if j \<in> set (ids [N]) then lookup j [M] else lookup j ts)"
proof (induction ts rule: forest_induct)
  case Nil
  then show ?case by simp
next
  case (Cons n ns)
  let ?i = "node_id N"
  have dc: "distinct (ids (children n))" and dn: "distinct (ids ns)"
   and nn: "node_id n \<notin> set (ids (children n))" "node_id n \<notin> set (ids ns)"
   and cn: "\<And>x. x \<in> set (ids (children n)) \<Longrightarrow> x \<notin> set (ids ns)"
    using Cons.prems(1) by auto
  consider (top) "N = n" | (kid) "N \<in> set (flattenTree (children n))"
    | (rest) "N \<in> set (flattenTree ns)"
    using Cons.prems(2) by auto
  then show ?case
  proof cases
    case top
    have e: "replaceNodeInTree ns ?i M = ns"
      using nn top by (intro replaceNodeInTree_absent) simp
    have l: "lookup j (M # ns) = (if j \<in> set (ids [M]) then lookup j [M] else lookup j ns)"
      using lookup_append [of j "[M]" ns] lookup_in [of j "[M]"] lookup_not_in [of j "[M]"]
      by (auto simp del: lookup_Cons ids_Cons)
    have "j \<notin> set (ids [n]) \<Longrightarrow> lookup j (n # ns) = lookup j ns"
      by (auto simp: lookup_Cons_cases simp del: lookup_Cons)
    then show ?thesis
      using top e l Cons.prems(4) by (simp del: lookup_Cons ids_Cons)
  next
    case kid
    have sub: "set (ids [N]) \<subseteq> set (ids (children n))"
      by (rule subtree_ids_subset [OF kid])
    then have ne: "?i \<noteq> node_id n" and nins: "?i \<notin> set (ids ns)" using nn cn by auto
    have e: "replaceNodeInTree ns ?i M = ns"
      using nins by (rule replaceNodeInTree_absent)
    have c: "children n \<noteq> []" using kid by auto
    have eq: "replaceNodeInTree (n # ns) ?i M =
        withChildren n (replaceNodeInTree (children n) ?i M) # ns"
      using ne e c by simp
    have idsR: "ids (replaceNodeInTree (children n) ?i M) = ids (children n)"
      by (rule replaceNodeInTree_ids [OF dc kid Cons.prems(3,4)])
    have top_ids: "map node_id (replaceNodeInTree (children n) ?i M) = map node_id (children n)"
      using replaceNodeInTree_top_ids [of "children n" M] Cons.prems(3) by simp
    have nN: "node_id n \<notin> set (ids [N])" using sub nn by auto
    show ?thesis
      using sub nN Cons.IH(1) [OF dc kid Cons.prems(3,4)]
      by (auto simp: eq lookup_Cons_cases [of _ _ ns] idsR info_def top_ids
            simp del: lookup_Cons ids_Cons replaceNodeInTree_Cons)
  next
    case rest
    have sub: "set (ids [N]) \<subseteq> set (ids ns)"
      by (rule subtree_ids_subset [OF rest])
    then have ne: "?i \<noteq> node_id n" and nins: "?i \<notin> set (ids (children n))" using nn cn by auto
    have e: "replaceNodeInTree (children n) ?i M = children n"
      using nins by (rule replaceNodeInTree_absent)
    have eq: "replaceNodeInTree (n # ns) ?i M = n # replaceNodeInTree ns ?i M"
      using ne e by simp
    have nN: "node_id n \<notin> set (ids [N])" using sub nn by auto
    show ?thesis
      using sub nN cn [of j] Cons.IH(2) [OF dn rest Cons.prems(3,4)]
      by (auto simp: eq lookup_Cons_cases [of _ n]
            simp del: lookup_Cons ids_Cons replaceNodeInTree_Cons)
  qed
qed



subsection \<open>Cut followed by paste\<close>

lemma replaceNodeInTree_member:
  "N \<in> set (flattenTree ts) \<Longrightarrow> M \<in> set (flattenTree (replaceNodeInTree ts (node_id N) M))"
proof (induction ts rule: forest_induct)
  case Nil
  then show ?case by simp
next
  case (Cons n ns)
  then show ?case by (cases "children n = []") auto
qed

lemma subtree_distinct:
  "distinct (ids ts) \<Longrightarrow> N \<in> set (flattenTree ts) \<Longrightarrow> distinct (ids [N])"
proof (induction ts rule: forest_induct)
  case Nil
  then show ?case by simp
next
  case (Cons n ns)
  then show ?case by auto
qed

lemma ids_markCutNodes: "ids [markCutNodes N] = ids [N]"
  using ids_map_markCutNodes [of "[N]"] by simp

lemma ids_clearCutFlags: "ids [clearCutFlags N] = ids [N]"
  using ids_map_clearCutFlags [of "[N]"] by simp

lemma lookup_markCutNodes:
  "lookup j [markCutNodes N] = map_option (setCut True) (lookup j [N])"
  using lookup_map_markCutNodes [of j "[N]"] by simp

lemma lookup_clearCutFlags:
  "lookup j [clearCutFlags N] = map_option (setCut False) (lookup j [N])"
  using lookup_map_clearCutFlags [of j "[N]"] by simp

lemma setCut_setCut [simp]: "setCut b (setCut b' x) = setCut b x"
  by (cases x) simp

lemma dropKid_setCut: "dropKid k (setCut b x) = setCut b (dropKid k x)"
  by (cases x) simp

text \<open>The state after a cut of a node of the forest.\<close>

lemma handleCut_fields:
  assumes "contextNode s = Some N" and "node_id N \<noteq> ''root''"
  shows "nodes (handleCut s) = replaceNodeInTree (nodes s) (node_id N) (markCutNodes N)"
    and "clipboard (handleCut s) = Some (Cut, markCutNodes N)"
    and "contextNode (handleCut s) = Some N"
  using assms by (simp_all add: handleCut_def Let_def)

lemma cut_forest:
  assumes d: "distinct (ids ts)" and m: "N \<in> set (flattenTree ts)"
  defines "F1 \<equiv> replaceNodeInTree ts (node_id N) (markCutNodes N)"
  shows "ids F1 = ids ts"
    and "distinct (ids F1)"
    and "markCutNodes N \<in> set (flattenTree F1)"
    and "map node_id F1 = map node_id ts"
    and "lookup j F1 =
          (if j \<in> set (ids [N]) then map_option (setCut True) (lookup j ts) else lookup j ts)"
proof -
  have i: "node_id (markCutNodes N) = node_id N" by simp
  show a: "ids F1 = ids ts"
    unfolding F1_def by (rule replaceNodeInTree_ids [OF d m i ids_markCutNodes])
  show "distinct (ids F1)" using a d by simp
  show "markCutNodes N \<in> set (flattenTree F1)"
    unfolding F1_def by (rule replaceNodeInTree_member [OF m])
  show "map node_id F1 = map node_id ts"
    unfolding F1_def using replaceNodeInTree_top_ids [of ts "markCutNodes N"] by simp
  show "lookup j F1 =
          (if j \<in> set (ids [N]) then map_option (setCut True) (lookup j ts) else lookup j ts)"
    unfolding F1_def
    using replaceNodeInTree_lookup [OF d m i ids_markCutNodes, of j] lookup_subtree [OF d m, of j]
    by (simp add: lookup_markCutNodes del: lookup_Cons ids_Cons)
qed

lemma handlePaste_cut_fields:
  assumes "contextNode s = Some T" and "clipboard s = Some (Cut, M)"
    and "node_id T \<noteq> node_id M"
  shows "nodes (handlePaste uuidv4 s) =
           fst (recalculateLayout
                  (updateTree (deleteFrom (Some (node_id M)) (nodes s)) (node_id T)
                     (appendChild (clearCutFlags M))) 0 0)"
    and "clipboard (handlePaste uuidv4 s) = None"
  using assms
  by (simp_all add: handlePaste_def Let_def handleCloseContextMenu_def removeFrom_deleteFrom)

lemma paste_cut_inside:
  assumes d: "distinct (ids F1)" and m: "M \<in> set (flattenTree F1)"
    and t: "tid \<in> set (ids (children M))"
  defines "R \<equiv> fst (recalculateLayout
                  (updateTree (deleteFrom (Some (node_id M)) F1) tid
                     (appendChild (clearCutFlags M))) 0 0)"
  shows "ids R = filter (\<lambda>j. j \<notin> set (ids [M])) (ids F1)"
    and "lookup j R =
          (if j \<in> set (ids [M]) then None else map_option (dropKid (node_id M)) (lookup j F1))"
proof -
  let ?F2 = "deleteFrom (Some (node_id M)) F1"
  have i2: "ids ?F2 = filter (\<lambda>j. j \<notin> set (ids [M])) (ids F1)"
    by (rule deleteFrom_ids [OF d m])
  have "tid \<in> set (ids [M])" using t by simp
  then have "tid \<notin> set (ids ?F2)" by (simp add: i2 del: ids_Cons)
  then have u: "updateTree ?F2 tid (appendChild (clearCutFlags M)) = ?F2"
    by (rule updateTree_absent)
  show "ids R = filter (\<lambda>j. j \<notin> set (ids [M])) (ids F1)"
    unfolding R_def u layout_ids by (rule i2)
  show "lookup j R =
          (if j \<in> set (ids [M]) then None else map_option (dropKid (node_id M)) (lookup j F1))"
    unfolding R_def u layout_lookup by (rule deleteFrom_lookup [OF d m])
qed

lemma paste_cut_outside:
  assumes d: "distinct (ids F1)" and m: "M \<in> set (flattenTree F1)"
    and t: "tid \<in> set (ids F1)" and o: "tid \<notin> set (ids [M])"
  defines "R \<equiv> fst (recalculateLayout
                  (updateTree (deleteFrom (Some (node_id M)) F1) tid
                     (appendChild (clearCutFlags M))) 0 0)"
  shows "distinct (ids R)"
    and "set (ids R) = set (ids F1)"
    and "lookup j R =
          (if j = tid
             then map_option (\<lambda>x. addKid (node_id M) (dropKid (node_id M) x)) (lookup j F1)
           else if j \<in> set (ids [M]) then map_option (setCut False) (lookup j F1)
           else map_option (dropKid (node_id M)) (lookup j F1))"
proof -
  let ?F2 = "deleteFrom (Some (node_id M)) F1"
  let ?c = "clearCutFlags M"
  have i2: "ids ?F2 = filter (\<lambda>j. j \<notin> set (ids [M])) (ids F1)"
    by (rule deleteFrom_ids [OF d m])
  have d2: "distinct (ids ?F2)" using d by (simp add: i2 del: ids_Cons)
  have t2: "tid \<in> set (ids ?F2)" using t o by (simp add: i2 del: ids_Cons)
  have ic: "ids [?c] = ids [M]" by (rule ids_clearCutFlags)
  have dc: "distinct (ids [?c])" unfolding ic by (rule subtree_distinct [OF d m])
  have dj: "set (ids [?c]) \<inter> set (ids ?F2) = {}"
    unfolding ic by (auto simp: i2 simp del: ids_Cons)
  have sub: "set (ids [M]) \<subseteq> set (ids F1)" by (rule subtree_ids_subset [OF m])
  show "distinct (ids R)"
    unfolding R_def layout_ids by (rule updateTree_distinct [OF d2 dc dj])
  show "set (ids R) = set (ids F1)"
    unfolding R_def layout_ids updateTree_ids_set_if using t2 sub
    by (auto simp: ic i2 simp del: ids_Cons)
  have l2: "lookup k ?F2 =
      (if k \<in> set (ids [M]) then None else map_option (dropKid (node_id M)) (lookup k F1))" for k
    by (rule deleteFrom_lookup [OF d m])
  have lc: "lookup j [?c] = map_option (setCut False) (lookup j F1)" if "j \<in> set (ids [M])"
    using lookup_subtree [OF d m that] by (simp add: lookup_clearCutFlags del: lookup_Cons)
  have ln: "lookup j F1 = None" if "j \<notin> set (ids F1)"
    using that by (rule lookup_not_in)
  have lcn: "lookup j [?c] = None" if "j \<notin> set (ids [M])"
    using that lookup_not_in [of j "[?c]"] by (simp add: ic del: lookup_Cons ids_Cons)
  have "lookup j R = lookup j (updateTree ?F2 tid (appendChild ?c))"
    unfolding R_def by (rule layout_lookup)
  also have "\<dots> = (if j = tid then map_option (addKid (node_id ?c)) (lookup tid ?F2)
      else if j \<in> set (ids ?F2) then lookup j ?F2 else lookup j [?c])"
    using updateTree_lookup_gen [OF d2 dj, of j tid] t2 by (simp del: lookup_Cons ids_Cons)
  also have "\<dots> = (if j = tid
             then map_option (\<lambda>x. addKid (node_id M) (dropKid (node_id M) x)) (lookup j F1)
           else if j \<in> set (ids [M]) then map_option (setCut False) (lookup j F1)
           else map_option (dropKid (node_id M)) (lookup j F1))"
    using o lc ln lcn
    by (auto simp: l2 i2 option.map_comp comp_def simp del: lookup_Cons ids_Cons)
  finally show "lookup j R =
          (if j = tid
             then map_option (\<lambda>x. addKid (node_id M) (dropKid (node_id M) x)) (lookup j F1)
           else if j \<in> set (ids [M]) then map_option (setCut False) (lookup j F1)
           else map_option (dropKid (node_id M)) (lookup j F1))" .
qed



subsection \<open>Trimming and deleting\<close>



lemma handleDelete_fields:
  "nodes (handleDelete s) =
     fst (recalculateLayout (deleteFrom (map_option node_id (contextNode s)) (nodes s)) 0 0)"
  "clipboard (handleDelete s) = clipboard s"
  by (simp_all add: handleDelete_def Let_def handleCloseContextMenu_def)




subsection \<open>Cloning and copy followed by paste\<close>

lemma labelTree_eq: "labelTree n = Rose (label n) (map labelTree (children n))"
  by (cases n) simp

lemma deepCloneChildren_fst_Cons:
  "fst (deepCloneChildren u k (n # ns)) =
     NodeItem (u k) (label n) (fst (deepCloneChildren u (Suc k) (children n))) (parentId n)
       (Some False) 0 0
     # fst (deepCloneChildren u (snd (deepCloneChildren u (Suc k) (children n))) ns)"
  by (simp add: case_prod_beta Let_def)

lemma deepCloneChildren_snd_Cons:
  "snd (deepCloneChildren u k (n # ns)) =
     snd (deepCloneChildren u (snd (deepCloneChildren u (Suc k) (children n))) ns)"
  by (simp add: case_prod_beta Let_def)

lemma deepClone_single: "[fst (deepClone u k n)] = fst (deepCloneChildren u k [n])"
  by (simp add: case_prod_beta Let_def)

lemma deepCloneChildren_snd: "snd (deepCloneChildren u k ts) = k + length (flattenTree ts)"
  by (induction ts arbitrary: k rule: forest_induct)
     (simp_all add: deepCloneChildren_snd_Cons del: deepCloneChildren.simps(2))

lemma upt_split3:
  "[k..<k + (1 + a + b)] = k # [Suc k..<Suc k + a] @ [Suc k + a..<Suc k + a + b]"
proof -
  have "k + (1 + a + b) = Suc k + a + b" by simp
  moreover have "k < Suc k + a + b" by simp
  ultimately have "[k..<k + (1 + a + b)] = k # [Suc k..<Suc k + a + b]"
    by (simp only: upt_conv_Cons)
  moreover have "[Suc k..<Suc k + a + b] = [Suc k..<Suc k + a] @ [Suc k + a..<Suc k + a + b]"
    by (rule upt_add_eq_append) simp
  ultimately show ?thesis by simp
qed

lemma deepCloneChildren_ids:
  "ids (fst (deepCloneChildren u k ts)) = map u [k..<k + length (flattenTree ts)]"
proof (induction ts arbitrary: k rule: forest_induct)
  case Nil
  then show ?case by simp
next
  case (Cons n ns)
  let ?a = "length (flattenTree (children n))" and ?b = "length (flattenTree ns)"
  have "ids (fst (deepCloneChildren u k (n # ns))) =
      u k # map u [Suc k..<Suc k + ?a] @ map u [Suc k + ?a..<Suc k + ?a + ?b]"
    by (simp add: deepCloneChildren_fst_Cons deepCloneChildren_snd Cons.IH
          del: deepCloneChildren.simps(2) upt_Suc)
  also have "\<dots> = map u [k..<k + (1 + ?a + ?b)]"
    by (simp only: upt_split3 list.map map_append)
  finally show ?case by (simp del: upt_Suc)
qed

lemma deepCloneChildren_labels:
  "map labelTree (fst (deepCloneChildren u k ts)) = map labelTree ts"
  by (induction ts arbitrary: k rule: forest_induct)
     (simp_all add: deepCloneChildren_fst_Cons labelTree_eq [of "_::NodeItem"]
        del: deepCloneChildren.simps(2))

lemma deepCloneChildren_flags:
  "list_all (\<lambda>m. isCut m = Some False) (flattenTree (fst (deepCloneChildren u k ts)))"
  by (induction ts arbitrary: k rule: forest_induct)
     (simp_all add: deepCloneChildren_fst_Cons del: deepCloneChildren.simps(2))

lemma deepClone_facts:
  "ids [fst (deepClone u k n)] = map u [k..<k + length (flattenTree [n])]"
  "labelTree (fst (deepClone u k n)) = labelTree n"
  "list_all (\<lambda>m. isCut m = Some False) (flattenTree [fst (deepClone u k n)])"
  using deepCloneChildren_ids [of u k "[n]"] deepCloneChildren_labels [of u k "[n]"]
    deepCloneChildren_flags [of u k "[n]"]
  by (simp_all add: deepClone_single [symmetric] case_prod_beta del: deepClone.simps ids_Cons flattenTree_Cons)

lemma deepClone_node_id: "node_id (fst (deepClone u k n)) = u k"
  by (simp add: case_prod_beta)


lemma handleCopy_fields:
  assumes "contextNode s = Some N" and "node_id N \<noteq> ''root''"
  shows "nodes (handleCopy s) = nodes s"
    and "clipboard (handleCopy s) = Some (Copy, N)"
  using assms by (simp_all add: handleCopy_def handleCloseContextMenu_def)

lemma handlePaste_copy_fields:
  assumes "contextNode s = Some T" and "clipboard s = Some (Copy, N)"
    and "node_id T \<noteq> node_id N"
  shows "nodes (handlePaste uuidv4 s) =
           fst (recalculateLayout
                  (updateTree (nodes s) (node_id T) (appendChild (fst (deepClone uuidv4 0 N))))
                  0 0)"
    and "clipboard (handlePaste uuidv4 s) = None"
  using assms
  by (simp_all add: handlePaste_def Let_def handleCloseContextMenu_def del: deepClone.simps)


subsection \<open>Rows assigned by the layout\<close>

lemma rowsFrom_0 [simp]: "rowsFrom r 0 = []"
  by (simp add: rowsFrom_def)

lemma rowsFrom_Suc: "rowsFrom r (Suc m) = r # rowsFrom (r + 1) m"
proof -
  have "[0..<Suc m] = 0 # map Suc [0..<m]"
    by (simp add: upt_conv_Cons map_Suc_upt del: upt_Suc)
  then show ?thesis
    by (simp add: rowsFrom_def comp_def add.assoc del: upt_Suc)
qed

lemma rowsFrom_add: "rowsFrom r (a + b) = rowsFrom r a @ rowsFrom (r + int a) b"
proof (induction a arbitrary: r)
  case 0
  then show ?case by simp
next
  case (Suc a)
  show ?case
    using Suc [of "r + 1"] by (simp add: rowsFrom_Suc add.assoc)
qed

lemmas layout_Cons = layout_fst_Cons layout_snd_Cons

lemma layout_mono: "r \<le> snd (recalculateLayout ts r c)"
proof (induction ts arbitrary: r c rule: forest_induct)
  case Nil
  then show ?case by simp
next
  case (Cons n ns)
  let ?r2 = "max (r + 1) (snd (recalculateLayout (children n) r (c + 1)))"
  have "?r2 \<le> snd (recalculateLayout ns ?r2 c)" by (rule Cons.IH)
  then show ?case
    by (simp add: layout_Cons del: recalculateLayout.simps(2))
qed

lemma layout_bounds:
  "m \<in> set (flattenTree (fst (recalculateLayout ts r c))) \<Longrightarrow>
     r \<le> row m \<and> row m < snd (recalculateLayout ts r c)"
proof (induction ts arbitrary: r c rule: forest_induct)
  case Nil
  then show ?case by simp
next
  case (Cons n ns)
  let ?k = "snd (recalculateLayout (children n) r (c + 1))"
  let ?r2 = "max (r + 1) ?k"
  have up: "?r2 \<le> snd (recalculateLayout ns ?r2 c)" by (rule layout_mono)
  consider (top) "row m = r"
    | (kid) "m \<in> set (flattenTree (fst (recalculateLayout (children n) r (c + 1))))"
    | (rest) "m \<in> set (flattenTree (fst (recalculateLayout ns ?r2 c)))"
    using Cons.prems by (auto simp: layout_Cons simp del: recalculateLayout.simps(2))
  then show ?case
  proof cases
    case top
    then show ?thesis using up by (simp add: layout_Cons del: recalculateLayout.simps(2))
  next
    case kid
    then show ?thesis
      using Cons.IH(1) [OF kid] up by (simp add: layout_Cons del: recalculateLayout.simps(2))
  next
    case rest
    then show ?thesis
      using Cons.IH(2) [OF rest] by (simp add: layout_Cons del: recalculateLayout.simps(2))
  qed
qed

lemma layout_laid:
  "m \<in> set (flattenTree (fst (recalculateLayout ts r c))) \<Longrightarrow>
     \<exists>X. children m = fst (recalculateLayout X (row m) (col m + 1))"
proof (induction ts arbitrary: r c rule: forest_induct)
  case Nil
  then show ?case by simp
next
  case (Cons n ns)
  then show ?case
    by (auto simp: layout_Cons simp del: recalculateLayout.simps(2))
qed

lemma layout_hd_row: "ts \<noteq> [] \<Longrightarrow> row (hd (fst (recalculateLayout ts r c))) = r"
  by (cases ts) (simp_all add: layout_Cons del: recalculateLayout.simps(2))

lemma layout_Nil_iff: "fst (recalculateLayout ts r c) = [] \<longleftrightarrow> ts = []"
  by (cases ts) (simp_all add: layout_Cons del: recalculateLayout.simps(2))

lemma layout_descendants:
  assumes "n \<in> set (flattenTree (fst (recalculateLayout ts r c)))"
    and "d \<in> set (flattenTree (children n))"
  shows "row n \<le> row d"
proof -
  obtain X where "children n = fst (recalculateLayout X (row n) (col n + 1))"
    using layout_laid [OF assms(1)] by blast
  then show ?thesis using layout_bounds [of d X "row n" "col n + 1"] assms(2) by simp
qed

lemma layout_first_child:
  assumes "n \<in> set (flattenTree (fst (recalculateLayout ts r c)))" and "children n \<noteq> []"
  shows "row (hd (children n)) = row n"
proof -
  obtain X where x: "children n = fst (recalculateLayout X (row n) (col n + 1))"
    using layout_laid [OF assms(1)] by blast
  then have "X \<noteq> []" using assms(2) by (auto simp: layout_Nil_iff)
  then show ?thesis unfolding x by (rule layout_hd_row)
qed

lemma subtree_subset:
  "n \<in> set (flattenTree ts) \<Longrightarrow> set (flattenTree [n]) \<subseteq> set (flattenTree ts)"
proof (induction ts rule: forest_induct)
  case Nil
  then show ?case by simp
next
  case (Cons a as)
  then show ?case by auto
qed

lemma top_subtree_subset:
  "b \<in> set ts \<Longrightarrow> set (flattenTree [b]) \<subseteq> set (flattenTree ts)"
  using top_in_flatten [of ts] subtree_subset [of b ts] by blast

lemma layout_siblings_top: "siblingsOrdered (fst (recalculateLayout ts r c))"
proof (induction ts arbitrary: r c rule: forest_induct)
  case Nil
  then show ?case by (simp add: siblingsOrdered_def)
next
  case (Cons n ns)
  let ?k = "snd (recalculateLayout (children n) r (c + 1))"
  let ?r2 = "max (r + 1) ?k"
  let ?n' = "NodeItem (node_id n) (label n) (fst (recalculateLayout (children n) r (c + 1)))
       (parentId n) (isCut n) c r"
  have low: "row x < ?r2" if "x \<in> set (flattenTree [?n'])" for x
    using that layout_bounds [of x "children n" r "c + 1"] by auto
  have high: "?r2 \<le> row y" if "y \<in> set (flattenTree (fst (recalculateLayout ns ?r2 c)))" for y
    using layout_bounds [OF that] by simp
  have "rowsBefore ?n' b" if "b \<in> set (fst (recalculateLayout ns ?r2 c))" for b
  proof -
    have "set (flattenTree [b]) \<subseteq> set (flattenTree (fst (recalculateLayout ns ?r2 c)))"
      using that by (rule top_subtree_subset)
    then show ?thesis
      unfolding rowsBefore_def list_all_iff using low high by fastforce
  qed
  then show ?case
    using Cons.IH(2) [of ?r2 c]
    by (simp add: siblingsOrdered_def layout_Cons del: recalculateLayout.simps(2) flattenTree_Cons)
qed


lemma layout_siblings_inner:
  assumes "n \<in> set (flattenTree (fst (recalculateLayout ts r c)))"
  shows "siblingsOrdered (children n)"
proof -
  obtain X where "children n = fst (recalculateLayout X (row n) (col n + 1))"
    using layout_laid [OF assms] by blast
  then show ?thesis by (simp add: layout_siblings_top)
qed

lemma layout_length: "length (fst (recalculateLayout ts r c)) = length ts"
  using layout_top_ids [of ts r c] by (metis length_map)

lemma layout_isLeaf_hd:
  "isLeaf (NodeItem i l (fst (recalculateLayout cs r c)) p k co ro) \<longleftrightarrow> cs = []"
  by (simp add: isLeaf_def layout_Nil_iff)

lemma leaves_Nil [simp]: "leaves [] = 0"
  by (simp add: leaves_def)

lemma leaves_Cons:
  "leaves (n # ns) = (if children n = [] then 1 else 0) + leaves (children n) + leaves ns"
  by (simp add: leaves_def isLeaf_def)

lemma leaves_pos: "ts \<noteq> [] \<Longrightarrow> 0 < leaves ts"
proof (induction ts rule: forest_induct)
  case Nil
  then show ?case by simp
next
  case (Cons n ns)
  then show ?case by (cases "children n = []") (simp_all add: leaves_Cons)
qed

lemma layout_snd: "snd (recalculateLayout ts r c) = r + int (leaves ts)"
proof (induction ts arbitrary: r c rule: forest_induct)
  case Nil
  then show ?case by (simp add: leaves_def)
next
  case (Cons n ns)
  show ?case
  proof (cases "children n = []")
    case True
    then show ?thesis
      using Cons.IH(2) [of "r + 1" c]
      by (simp add: layout_Cons leaves_Cons del: recalculateLayout.simps(2))
  next
    case False
    then have "0 < leaves (children n)" by (rule leaves_pos)
    then have "max (r + 1) (r + int (leaves (children n))) = r + int (leaves (children n))"
      by simp
    then show ?thesis
      using False Cons.IH(1) [of r "c + 1"] Cons.IH(2) [of "r + int (leaves (children n))" c]
      by (simp add: layout_Cons leaves_Cons del: recalculateLayout.simps(2))
  qed
qed

lemma layout_leaf_rows:
  "map row (filter isLeaf (flattenTree (fst (recalculateLayout ts r c)))) = rowsFrom r (leaves ts)"
proof (induction ts arbitrary: r c rule: forest_induct)
  case Nil
  then show ?case by (simp add: leaves_def)
next
  case (Cons n ns)
  show ?case
  proof (cases "children n = []")
    case True
    then show ?thesis
      using Cons.IH(2) [of "r + 1" c]
      by (simp add: layout_Cons leaves_Cons isLeaf_def rowsFrom_Suc
            del: recalculateLayout.simps(2))
  next
    case False
    then have "0 < leaves (children n)" by (rule leaves_pos)
    then have m: "max (r + 1) (r + int (leaves (children n))) = r + int (leaves (children n))"
      by simp
    show ?thesis
      using False Cons.IH(1) [of r "c + 1"] Cons.IH(2) [of "r + int (leaves (children n))" c]
      by (simp add: layout_Cons leaves_Cons layout_isLeaf_hd layout_snd m rowsFrom_add
            del: recalculateLayout.simps(2))
  qed
qed


subsection \<open>The layout of the second variant\<close>

lemma layout0_fst_Cons:
  "fst (recalculateLayout_p000 (n # ns) r c) =
     NodeItem (node_id n) (label n) (fst (recalculateLayout_p000 (children n) (r + 1) (c + 1)))
       (parentId n) (isCut n) c r
     # fst (recalculateLayout_p000 ns
            (max (r + 1) (snd (recalculateLayout_p000 (children n) (r + 1) (c + 1)))) c)"
  by (simp add: case_prod_beta Let_def)

lemma layout0_snd_Cons:
  "snd (recalculateLayout_p000 (n # ns) r c) =
     snd (recalculateLayout_p000 ns
            (max (r + 1) (snd (recalculateLayout_p000 (children n) (r + 1) (c + 1)))) c)"
  by (simp add: case_prod_beta Let_def)

lemmas layout0_Cons = layout0_fst_Cons layout0_snd_Cons

lemma layout0_snd: "snd (recalculateLayout_p000 ts r c) = r + int (length (flattenTree ts))"
proof (induction ts arbitrary: r c rule: forest_induct)
  case Nil
  then show ?case by simp
next
  case (Cons n ns)
  let ?a = "int (length (flattenTree (children n)))"
  have "max (r + 1) (r + 1 + ?a) = r + 1 + ?a" by simp
  then show ?case
    using Cons.IH(1) [of "r + 1" "c + 1"] Cons.IH(2) [of "r + 1 + ?a" c]
    by (simp add: layout0_Cons del: recalculateLayout_p000.simps(2))
qed

lemma layout0_rows:
  "map row (flattenTree (fst (recalculateLayout_p000 ts r c))) =
     rowsFrom r (length (flattenTree ts))"
proof (induction ts arbitrary: r c rule: forest_induct)
  case Nil
  then show ?case by simp
next
  case (Cons n ns)
  let ?a = "length (flattenTree (children n))"
  have m: "max (r + 1) (r + 1 + int ?a) = r + 1 + int ?a" by simp
  have "rowsFrom r (Suc (?a + length (flattenTree ns))) =
      r # rowsFrom (r + 1) ?a @ rowsFrom (r + 1 + int ?a) (length (flattenTree ns))"
    by (simp add: rowsFrom_Suc rowsFrom_add)
  then show ?case
    using Cons.IH(1) [of "r + 1" "c + 1"] Cons.IH(2) [of "r + 1 + int ?a" c]
    by (simp add: layout0_Cons layout0_snd m del: recalculateLayout_p000.simps(2))
qed

lemma rowsFrom_bounds: "x \<in> set (rowsFrom r m) \<Longrightarrow> r \<le> x \<and> x < r + int m"
  by (auto simp: rowsFrom_def)

lemma layout0_bounds:
  assumes "m \<in> set (flattenTree (fst (recalculateLayout_p000 ts r c)))"
  shows "r \<le> row m \<and> row m < snd (recalculateLayout_p000 ts r c)"
proof -
  have "row m \<in> set (map row (flattenTree (fst (recalculateLayout_p000 ts r c))))"
    using assms by simp
  then show ?thesis
    unfolding layout0_rows layout0_snd by (rule rowsFrom_bounds)
qed

lemma layout0_laid:
  "m \<in> set (flattenTree (fst (recalculateLayout_p000 ts r c))) \<Longrightarrow>
     \<exists>X. children m = fst (recalculateLayout_p000 X (row m + 1) (col m + 1))"
proof (induction ts arbitrary: r c rule: forest_induct)
  case Nil
  then show ?case by simp
next
  case (Cons n ns)
  then show ?case
    by (auto simp: layout0_Cons simp del: recalculateLayout_p000.simps(2))
qed

lemma layout0_descendants:
  assumes "n \<in> set (flattenTree (fst (recalculateLayout_p000 ts r c)))"
    and "d \<in> set (flattenTree (children n))"
  shows "row n < row d"
proof -
  obtain X where "children n = fst (recalculateLayout_p000 X (row n + 1) (col n + 1))"
    using layout0_laid [OF assms(1)] by blast
  then show ?thesis using layout0_bounds [of d X "row n + 1" "col n + 1"] assms(2) by simp
qed

lemma layout0_siblings_top: "siblingsOrdered (fst (recalculateLayout_p000 ts r c))"
proof (induction ts arbitrary: r c rule: forest_induct)
  case Nil
  then show ?case by (simp add: siblingsOrdered_def)
next
  case (Cons n ns)
  let ?k = "snd (recalculateLayout_p000 (children n) (r + 1) (c + 1))"
  let ?r2 = "max (r + 1) ?k"
  let ?n' = "NodeItem (node_id n) (label n)
       (fst (recalculateLayout_p000 (children n) (r + 1) (c + 1))) (parentId n) (isCut n) c r"
  have low: "row x < ?r2" if "x \<in> set (flattenTree [?n'])" for x
    using that layout0_bounds [of x "children n" "r + 1" "c + 1"] by auto
  have high: "?r2 \<le> row y"
    if "y \<in> set (flattenTree (fst (recalculateLayout_p000 ns ?r2 c)))" for y
    using layout0_bounds [OF that] by simp
  have "rowsBefore ?n' b" if "b \<in> set (fst (recalculateLayout_p000 ns ?r2 c))" for b
  proof -
    have "set (flattenTree [b]) \<subseteq> set (flattenTree (fst (recalculateLayout_p000 ns ?r2 c)))"
      using that by (rule top_subtree_subset)
    then show ?thesis
      unfolding rowsBefore_def list_all_iff using low high by fastforce
  qed
  then show ?case
    using Cons.IH(2) [of ?r2 c]
    by (simp add: siblingsOrdered_def layout0_Cons
          del: recalculateLayout_p000.simps(2) flattenTree_Cons)
qed

lemma layout0_siblings_inner:
  assumes "n \<in> set (flattenTree (fst (recalculateLayout_p000 ts r c)))"
  shows "siblingsOrdered (children n)"
proof -
  obtain X where "children n = fst (recalculateLayout_p000 X (row n + 1) (col n + 1))"
    using layout0_laid [OF assms] by blast
  then show ?thesis by (simp add: layout0_siblings_top)
qed


subsection \<open>The second variant: ids, lookups and handlers\<close>

lemma layout0_top_ids: "map node_id (fst (recalculateLayout_p000 ts r c)) = map node_id ts"
  by (induction ts arbitrary: r c rule: forest_induct)
     (simp_all add: layout0_fst_Cons del: recalculateLayout_p000.simps(2))

lemma layout0_ids: "ids (fst (recalculateLayout_p000 ts r c)) = ids ts"
  by (induction ts arbitrary: r c rule: forest_induct)
     (simp_all add: layout0_fst_Cons del: recalculateLayout_p000.simps(2))

lemma layout0_lookup: "lookup j (fst (recalculateLayout_p000 ts r c)) = lookup j ts"
  by (induction ts arbitrary: r c rule: forest_induct)
     (simp_all add: layout0_fst_Cons info_def layout0_top_ids
        del: recalculateLayout_p000.simps(2) cong: option.case_cong)

lemma updateTree_flag_top_ids: "map node_id (updateTree ts i flagCut) = map node_id ts"
  by (induction ts rule: forest_induct) auto

lemma updateTree_flag_ids: "ids (updateTree ts i flagCut) = ids ts"
  by (induction ts rule: forest_induct) auto

lemma updateTree_flag_lookup:
  "lookup j (updateTree ts i flagCut) =
     (if j = i then map_option (setCut True) (lookup j ts) else lookup j ts)"
  by (induction ts rule: forest_induct)
     (auto simp: info_def updateTree_flag_top_ids split: option.splits)

lemma handleCut_p000_fields:
  assumes "contextNode s = Some N" and "node_id N \<noteq> ''root''"
  shows "nodes (handleCut_p000 s) = updateTree (nodes s) (node_id N) flagCut"
    and "clipboard (handleCut_p000 s) = Some (Cut, N)"
  using assms by (simp_all add: handleCut_p000_def Let_def handleCloseContextMenu_def)


lemma handlePaste_p000_copy_fields:
  assumes "contextNode s = Some T" and "clipboard s = Some (Copy, N)"
    and "node_id T \<noteq> node_id N"
  shows "nodes (handlePaste_p000 uuidv4 s) =
           fst (recalculateLayout_p000
                  (updateTree (nodes s) (node_id T) (appendChild (fst (deepClone uuidv4 0 N))))
                  0 0)"
    and "clipboard (handlePaste_p000 uuidv4 s) = None"
  using assms
  by (simp_all add: handlePaste_p000_def Let_def handleCloseContextMenu_def del: deepClone.simps)


lemma handleDelete_p000_fields:
  "nodes (handleDelete_p000 s) =
     fst (recalculateLayout_p000 (deleteFrom (map_option node_id (contextNode s)) (nodes s)) 0 0)"
  "clipboard (handleDelete_p000 s) = clipboard s"
  by (simp_all add: handleDelete_p000_def Let_def handleCloseContextMenu_def)


section \<open>The example scenario, evaluated\<close>

lemma isWhiteSpace_AB [simp]: "\<not> isWhiteSpace 65" "\<not> isWhiteSpace 66"
  by (simp_all add: isWhiteSpace_def)

lemma trim_AB [simp]: "trim [65] = [65]" "trim [66] = [66]"
  by (simp_all add: trim_def)

lemmas handler_defs = handleModalSubmit_def handleCut_def handleCopy_def handlePaste_def
  handleDelete_def handleRightClick_def handleAddChild_def handleCloseContextMenu_def
  setNewLabel_def addNode_def Let_def withChildren_def

lemma exStateA_nodes: "nodes exStateA = [exRootA]"
  by (simp add: exStateA_def handler_defs initialState_def initialNodes_def exRoot_def
        exRootA_def exA_def)

lemma exStateAB_nodes: "nodes exStateAB = [exRootAB]"
  by (simp add: exStateAB_def exStateA_nodes handler_defs exRootA_def exRootAB_def exA_def
        exB_def)

lemma exStateAB_clipboard: "clipboard exStateAB = None"
  by (simp add: exStateAB_def exStateA_def handler_defs initialState_def)

lemma exStateCut_nodes:
  "nodes exStateCut = [NodeItem ''root'' RootLabel [markCutNodes exA, exB] None None 0 0]"
  by (simp add: exStateCut_def exStateAClicked_def exStateAB_nodes handler_defs exRootAB_def
        exA_def exB_def)

lemma exStateCut_clipboard: "clipboard exStateCut = Some (Cut, markCutNodes exA)"
  by (simp add: exStateCut_def exStateAClicked_def exStateAB_nodes handler_defs exRootAB_def
        exA_def exB_def)

lemma exStateMoved_nodes:
  "nodes exStateMoved =
     [NodeItem ''root'' RootLabel
        [NodeItem ''b'' [66] [NodeItem ''a'' [65] [] (Some ''root'') (Some False) 2 0]
           (Some ''root'') None 1 0] None None 0 0]"
  by (simp add: exStateMoved_def exStateCut_nodes exStateCut_clipboard handler_defs exA_def
        exB_def)

lemma exStateAClicked_fields:
  "nodes exStateAClicked = [exRootAB]" "contextNode exStateAClicked = Some exA"
  by (simp_all add: exStateAClicked_def handleRightClick_def exStateAB_nodes)

lemma exStateAB_ids: "ids [exRootAB] = [''root'', ''a'', ''b'']"
  by (simp add: exRootAB_def exA_def exB_def)

lemma exStateCut_contextNode: "contextNode exStateCut = Some exA"
  by (simp add: exStateCut_def exStateAClicked_def handler_defs exA_def)

lemma exStateMoved_unfold:
  "exStateMoved = handlePaste (\<lambda>k. ''c'') (handleRightClick (0, 0) exB (handleCut exStateAClicked))"
  by (simp add: exStateMoved_def exStateCut_def)

lemma exStateDeep_fields:
  "nodes exStateDeep = [NodeItem ''root'' RootLabel [exA2] None None 0 0]"
  "contextNode exStateDeep = Some exA2"
  by (simp_all add: exStateDeep_def exStateA_nodes handler_defs exRootA_def exA_def exA2_def
        exB2_def)

lemma exStateTyping_fields:
  "nodes exStateTyping = [exRootA]" "contextNode exStateTyping = Some exRootA"
  "newLabel exStateTyping = [66]"
  "nodes exStateBlank = [exRootA]" "contextNode exStateBlank = Some exRootA"
  "newLabel exStateBlank = [32, 9]"
  by (simp_all add: exStateTyping_def exStateBlank_def setNewLabel_def handleAddChild_def
        handleCloseContextMenu_def handleRightClick_def exStateA_nodes)

lemma exUuid_values: "exUuid 0 = ''c''" "exUuid (Suc 0) = ''cc''"
  by (simp_all add: exUuid_def)

lemma exUuid_inj: "inj_on exUuid A"
  by (simp add: inj_on_def exUuid_def)

lemma exLayoutForest_page:
  "fst (recalculateLayout exLayoutForest 0 0) =
     [NodeItem ''root'' RootLabel
        [NodeItem ''a'' [65]
           [NodeItem ''b'' [66] [] (Some ''a'') None 2 0,
            NodeItem ''c'' [67] [] (Some ''a'') None 2 1] (Some ''root'') None 1 0,
         NodeItem ''d'' [68] [] (Some ''root'') None 1 2] None None 0 0]"
  by (simp add: exLayoutForest_def)

lemma exLayoutForest_p000:
  "fst (recalculateLayout_p000 exLayoutForest 0 0) =
     [NodeItem ''root'' RootLabel
        [NodeItem ''a'' [65]
           [NodeItem ''b'' [66] [] (Some ''a'') None 2 2,
            NodeItem ''c'' [67] [] (Some ''a'') None 2 3] (Some ''root'') None 1 1,
         NodeItem ''d'' [68] [] (Some ''root'') None 1 4] None None 0 0]"
  by (simp add: exLayoutForest_def)

lemma exStateCopy_hyps:
  "distinct (ids (nodes exStateDeep))" "contextNode exStateDeep = Some exA2"
  "exA2 \<in> set (flattenTree (nodes exStateDeep))" "node_id exA2 \<noteq> ''root''"
  "exRootDeep \<in> set (flattenTree (nodes (handleCopy exStateDeep)))"
  "node_id exRootDeep \<noteq> node_id exA2" "node_id exRootDeep \<notin> set (ids [exA2])"
  "length (flattenTree [exA2]) = 2"
  "ids (nodes exStateDeep) = [''root'', ''a'', ''b'']"
  by (simp_all add: exStateDeep_fields handleCopy_def handleCloseContextMenu_def exRootDeep_def
        exA2_def exB2_def)

subsection \<open>The second variant on the examples\<close>

text \<open>
  On the same forests the handlers of the second variant behave differently: cut marks
  the cut node only; paste after cut inserts the node and then removes every node with
  its id, the inserted one included, so the node is lost; delete removes the root or a
  whole subtree; and the rows of the layout are the pre-order positions.
\<close>

lemmas handler_p000_defs = handleModalSubmit_p000_def handleCut_p000_def handlePaste_p000_def
  handleDelete_p000_def

lemma p000_cut_marks_top_only:
  "map node_id (flattenTree (nodes (handleCut_p000 exStateDeep))) = [''root'', ''a'', ''b'']
   \<and> map isCut (flattenTree (nodes (handleCut_p000 exStateDeep))) = [None, Some True, None]
   \<and> clipboard (handleCut_p000 exStateDeep) = Some (Cut, exA2)"
  by (simp add: handler_p000_defs handler_defs exStateDeep_fields exA2_def exB2_def)

lemma p000_cut_paste_removes_node:
  "ids (nodes (handleCut_p000 exStateAClicked)) = [''root'', ''a'', ''b'']
   \<and> ids (nodes (handlePaste_p000 (\<lambda>k. ''c'')
              (handleRightClick (0, 0) exB (handleCut_p000 exStateAClicked)))) = [''root'', ''b'']"
  by (simp add: handler_p000_defs handler_defs exStateAClicked_fields exRootAB_def exA_def
        exB_def)

lemma p000_delete_unguarded:
  "nodes (handleDelete_p000 exStateRootClicked) = []
   \<and> ids (nodes (handleDelete_p000 exStateDeep)) = [''root'']"
  by (simp add: handler_p000_defs handler_defs exStateDeep_fields exStateRootClicked_def
        initialState_def initialNodes_def exRoot_def exA2_def exB2_def)

text \<open>
  Paste of the second variant pushes onto the children array that the stored context
  node shares with the target; page.tsx replaces the array and leaves the context node
  as it is.
\<close>

lemma p000_paste_pushes_onto_context_node:
  "map_option (\<lambda>n. map node_id (children n)) (contextNode exStateCopied) = Some [''a'']
   \<and> map_option (\<lambda>n. map node_id (children n)) (contextNode exStateCopied_p000)
       = Some [''a'', ''c'']"
  by (simp add: exStateCopied_def exStateCopied_p000_def handler_p000_defs handler_defs
        exStateDeep_fields exRootDeep_def exA2_def exB2_def exUuid_values case_prod_beta
        Let_def withChildren_def)

lemma p000_add_child_rows:
  "map row (flattenTree (nodes (handleModalSubmit_p000 (\<lambda>k. ''b'') exStateTyping))) = [0, 1, 2]"
  by (simp add: handler_p000_defs handler_defs exStateTyping_fields exRootA_def exA_def)

section \<open>The claims\<close>

text \<open>
  C3. Claimed: in every reachable forest the \<^verbatim>\<open>parentId\<close> of a node is the id of
  the node that holds it. The scenario refutes this for the code: the forests after the
  two additions and after the cut are consistent, but paste re-attaches the clipboard
  node with its old \<^verbatim>\<open>parentId\<close>, so after cutting A and pasting it under B the
  node A still names the root as its parent.
\<close>

theorem parentId_stale_after_cut_paste:
  "parentIdConsistent (nodes initialState) \<and> parentIdConsistent (nodes exStateAB)
   \<and> parentIdConsistent (nodes exStateCut) \<and> \<not> parentIdConsistent (nodes exStateMoved)"
  by (simp add: exStateMoved_nodes exStateCut_nodes exStateAB_nodes parentIdConsistent_def
        initialState_def initialNodes_def exRootAB_def exA_def exB_def)

text \<open>
  C7. Paste with an empty clipboard, or with a target whose id is the id of the clipboard
  node, returns the state as it is: forest and clipboard are unchanged. Both variants of
  the handler have the same guard.
\<close>

theorem paste_guard:
  "clipboard s = None \<or>
   (\<exists>cn m c. contextNode s = Some cn \<and> clipboard s = Some (m, c) \<and> node_id cn = node_id c)
   \<Longrightarrow> handlePaste uuidv4 s = s \<and> handlePaste_p000 uuidv4 s = s"
  by (auto simp: handlePaste_def handlePaste_p000_def split: option.splits)

theorem paste_guard_witness:
  "clipboard initialState = None
   \<and> handlePaste (\<lambda>k. ''c'') initialState = initialState
   \<and> contextNode exStateSelfPaste = Some (markCutNodes exA)
   \<and> clipboard exStateSelfPaste = Some (Cut, markCutNodes exA)
   \<and> handlePaste (\<lambda>k. ''c'') exStateSelfPaste = exStateSelfPaste"
proof -
  have e: "clipboard initialState = None"
    by (simp add: initialState_def)
  have c: "contextNode exStateSelfPaste = Some (markCutNodes exA)"
    by (simp add: exStateSelfPaste_def handleRightClick_def)
  have b: "clipboard exStateSelfPaste = Some (Cut, markCutNodes exA)"
    by (simp add: exStateSelfPaste_def handleRightClick_def exStateCut_clipboard)
  have "handlePaste (\<lambda>k. ''c'') initialState = initialState"
    using paste_guard [of initialState] e by simp
  moreover have "handlePaste (\<lambda>k. ''c'') exStateSelfPaste = exStateSelfPaste"
    using paste_guard [of exStateSelfPaste] c b by simp
  ultimately show ?thesis using e c b by simp
qed

text \<open>
  C4. Claimed: cut, copy and delete with the root as target leave forest and clipboard
  unchanged. \<^verbatim>\<open>handleCut\<close> and \<^verbatim>\<open>handleCopy\<close> return early on the root, but
  \<^verbatim>\<open>handleDelete\<close> has no guard of its own: called with the root as context node
  it filters the root out and leaves the empty forest.
\<close>

theorem delete_root_counterexample:
  "contextNode exStateRootClicked = Some exRoot \<and> node_id exRoot = ''root''
   \<and> nodes exStateRootClicked = [exRoot]
   \<and> nodes (handleDelete exStateRootClicked) = []"
  by (simp add: exStateRootClicked_def handler_defs initialState_def initialNodes_def
        exRoot_def)

text \<open>
  C4, amended. \<^verbatim>\<open>handleCut\<close> and \<^verbatim>\<open>handleCopy\<close> with the root as context node
  return the state unchanged. Delete on the root is held back by the menu only: the
  delete item is disabled for the root, so clicking it leaves the state unchanged.
\<close>

theorem root_guards:
  "contextNode s = Some cn \<Longrightarrow> node_id cn = ''root'' \<Longrightarrow>
     handleCut s = s \<and> handleCopy s = s \<and> clickDelete s = s"
  by (simp add: handleCut_def handleCopy_def clickDelete_def deleteDisabled_def)

theorem root_guards_witness:
  "contextNode exStateRootClicked = Some exRoot \<and> node_id exRoot = ''root''
   \<and> handleCut exStateRootClicked = exStateRootClicked
   \<and> handleCopy exStateRootClicked = exStateRootClicked
   \<and> clickDelete exStateRootClicked = exStateRootClicked"
proof -
  have c: "contextNode exStateRootClicked = Some exRoot"
    by (simp add: exStateRootClicked_def handleRightClick_def)
  have r: "node_id exRoot = ''root''"
    by (simp add: exRoot_def)
  show ?thesis using root_guards [OF c r] c r by simp
qed


text \<open>
  C10. The paste guard compares ids only, so a cut node \<open>N\<close> may be pasted into a strict
  descendant \<open>T\<close> of itself: the ids differ and the guard passes. In page.tsx the
  removal comes first and takes \<open>T\<close> along, the insertion then finds no target, and the
  result is the forest without the subtree of \<open>N\<close>: every id of the subtree is gone, all
  other nodes are as before (the old parent without \<open>N\<close>), and the clipboard is empty.
\<close>

theorem cut_paste_into_descendant_loses_subtree:
  assumes "distinct (ids (nodes s))" and "contextNode s = Some N"
    and "N \<in> set (flattenTree (nodes s))" and "node_id N \<noteq> ''root''"
    and "T \<in> set (flattenTree (children (markCutNodes N)))"
    and "s2 = handlePaste uuidv4 (handleRightClick pos T (handleCut s))"
  shows "node_id T \<noteq> node_id N
    \<and> clipboard s2 = None
    \<and> ids (nodes s2) = filter (\<lambda>j. j \<notin> set (ids [N])) (ids (nodes s))
    \<and> (\<forall>j. lookup j (nodes s2) =
          (if j \<in> set (ids [N]) then None
           else map_option (dropKid (node_id N)) (lookup j (nodes s))))"
proof -
  let ?M = "markCutNodes N"
  let ?s1 = "handleRightClick pos T (handleCut s)"
  note cf = cut_forest [OF assms(1,3)]
  have n1: "nodes ?s1 = replaceNodeInTree (nodes s) (node_id N) ?M"
   and c1: "clipboard ?s1 = Some (Cut, ?M)" and t1: "contextNode ?s1 = Some T"
    using handleCut_fields [OF assms(2,4)] by (simp_all add: handleRightClick_def)
  have tin: "node_id T \<in> set (ids (children ?M))"
    using assms(5) by (rule member_ids)
  have "distinct (ids [?M])" by (rule subtree_distinct [OF cf(2,3)])
  then have ne: "node_id T \<noteq> node_id ?M" using tin by auto
  note hp = handlePaste_cut_fields [OF t1 c1 ne, of uuidv4]
  note pc = paste_cut_inside [OF cf(2,3) tin]
  have eq: "\<forall>j. lookup j (nodes s2) =
          (if j \<in> set (ids [N]) then None
           else map_option (dropKid (node_id N)) (lookup j (nodes s)))"
  proof
    fix j
    show "lookup j (nodes s2) =
          (if j \<in> set (ids [N]) then None
           else map_option (dropKid (node_id N)) (lookup j (nodes s)))"
      using pc(2) [of j] cf(5) [of j]
      by (auto simp: assms(6) hp(1) n1 ids_markCutNodes simp del: lookup_Cons ids_Cons)
  qed
  have cl: "clipboard s2 = None"
    using hp(2) by (simp add: assms(6))
  have ii: "ids (nodes s2) = filter (\<lambda>j. j \<notin> set (ids [N])) (ids (nodes s))"
    using pc(1) cf(1) by (simp add: assms(6) hp(1) n1 ids_markCutNodes del: ids_Cons)
  show ?thesis
    using ne cl ii eq by (simp del: lookup_Cons ids_Cons)
qed


theorem cut_paste_into_descendant_witness:
  "distinct (ids (nodes exStateDeep)) \<and> contextNode exStateDeep = Some exA2
   \<and> exA2 \<in> set (flattenTree (nodes exStateDeep)) \<and> node_id exA2 \<noteq> ''root''
   \<and> markCutNodes exB2 \<in> set (flattenTree (children (markCutNodes exA2)))
   \<and> ids (nodes exStateDeep) = [''root'', ''a'', ''b'']
   \<and> clipboard exStateLost = None
   \<and> ids (nodes exStateLost) = [''root'']
   \<and> lookup ''a'' (nodes exStateLost) = None
   \<and> lookup ''b'' (nodes exStateLost) = None
   \<and> lookup ''root'' (nodes exStateLost) = Some (RootLabel, None, None, [])"
proof -
  have d: "distinct (ids (nodes exStateDeep))"
    by (simp add: exStateDeep_fields exA2_def exB2_def)
  have c: "contextNode exStateDeep = Some exA2"
    by (rule exStateDeep_fields)
  have m: "exA2 \<in> set (flattenTree (nodes exStateDeep))"
    by (simp add: exStateDeep_fields)
  have r: "node_id exA2 \<noteq> ''root''"
    by (simp add: exA2_def)
  have t: "markCutNodes exB2 \<in> set (flattenTree (children (markCutNodes exA2)))"
    by (simp add: exA2_def)
  note th = cut_paste_into_descendant_loses_subtree [OF d c m r t exStateLost_def]
  have l: "lookup j (nodes exStateLost) =
          (if j \<in> set (ids [exA2]) then None
           else map_option (dropKid (node_id exA2)) (lookup j (nodes exStateDeep)))" for j
    using th by blast
  have i: "ids (nodes exStateLost) = filter (\<lambda>j. j \<notin> set (ids [exA2])) (ids (nodes exStateDeep))"
    using th by blast
  have k: "clipboard exStateLost = None"
    using th by blast
  show ?thesis
    using d c m r t k
    by (simp add: l i exStateDeep_fields exA2_def exB2_def info_def)
qed

text \<open>
  C1. Claimed: after cut of \<open>N\<close> and paste under \<open>T\<close> (not \<open>N\<close>, not a descendant),
  \<open>N\<close> is the last child of \<open>T\<close> with its cut flag false, is no longer at its
  original location, and the clipboard is empty. When \<open>T\<close> is the parent \<open>N\<close>
  already has, \<open>N\<close> is removed and appended to the same list: in the forest root[A],
  cutting A and pasting under the root leaves A where it was, as the only child of the
  root.
\<close>

theorem cut_paste_same_parent_counterexample:
  "lookup ''root'' (nodes exStateA) = Some (RootLabel, None, None, [''a''])
   \<and> lookup ''root'' (nodes exStateBack) = Some (RootLabel, None, None, [''a''])
   \<and> lookup ''a'' (nodes exStateBack) = Some ([65], Some ''root'', Some False, [])
   \<and> clipboard exStateBack = None"
  by (simp add: exStateBack_def exStateA_nodes handler_defs exRootA_def exA_def info_def)

text \<open>
  C1, amended. In a forest with unique ids, after cut of a node \<open>N\<close> other than the
  root and paste under a node \<open>T\<close> whose id is not an id of the subtree of \<open>N\<close>: the
  clipboard is empty; the forest has the same ids as before, each once; the child ids
  of \<open>T\<close> are its old ones without \<open>N\<close>, followed by \<open>N\<close>; \<open>N\<close> and its
  descendants keep label, parent id and children and have the cut flag false; every
  other node only loses \<open>N\<close> from its list of children. So \<open>N\<close> leaves its old
  parent unless that parent is \<open>T\<close>.
\<close>

theorem cut_then_paste_moves_node:
  assumes "distinct (ids (nodes s))" and "contextNode s = Some N"
    and "N \<in> set (flattenTree (nodes s))" and "node_id N \<noteq> ''root''"
    and "T \<in> set (flattenTree (nodes (handleCut s)))" and "node_id T \<notin> set (ids [N])"
    and "s2 = handlePaste uuidv4 (handleRightClick pos T (handleCut s))"
  shows "clipboard s2 = None
    \<and> distinct (ids (nodes s2)) \<and> set (ids (nodes s2)) = set (ids (nodes s))
    \<and> (\<exists>l p c ks. lookup (node_id T) (nodes s2) = Some (l, p, c, ks @ [node_id N]))
    \<and> (\<exists>l p ks. lookup (node_id N) (nodes s2) = Some (l, p, Some False, ks))
    \<and> (\<forall>j. lookup j (nodes s2) =
          (if j = node_id T
             then map_option (\<lambda>x. addKid (node_id N) (dropKid (node_id N) x)) (lookup j (nodes s))
           else if j \<in> set (ids [N]) then map_option (setCut False) (lookup j (nodes s))
           else map_option (dropKid (node_id N)) (lookup j (nodes s))))"
proof -
  let ?M = "markCutNodes N"
  let ?s1 = "handleRightClick pos T (handleCut s)"
  note cf = cut_forest [OF assms(1,3)]
  have n1: "nodes ?s1 = replaceNodeInTree (nodes s) (node_id N) ?M"
   and c1: "clipboard ?s1 = Some (Cut, ?M)" and t1: "contextNode ?s1 = Some T"
    using handleCut_fields [OF assms(2,4)] by (simp_all add: handleRightClick_def)
  have tin: "node_id T \<in> set (ids (nodes ?s1))"
    using assms(5) by (simp add: handleRightClick_def member_ids)
  have o: "node_id T \<notin> set (ids [?M])"
    using assms(6) by (simp add: ids_markCutNodes del: ids_Cons)
  then have ne: "node_id T \<noteq> node_id ?M" by auto
  note hp = handlePaste_cut_fields [OF t1 c1 ne, of uuidv4]
  note pc = paste_cut_outside [OF cf(2,3) tin [unfolded n1] o]
  have eq: "\<forall>j. lookup j (nodes s2) =
          (if j = node_id T
             then map_option (\<lambda>x. addKid (node_id N) (dropKid (node_id N) x)) (lookup j (nodes s))
           else if j \<in> set (ids [N]) then map_option (setCut False) (lookup j (nodes s))
           else map_option (dropKid (node_id N)) (lookup j (nodes s)))"
  proof
    fix j
    show "lookup j (nodes s2) =
          (if j = node_id T
             then map_option (\<lambda>x. addKid (node_id N) (dropKid (node_id N) x)) (lookup j (nodes s))
           else if j \<in> set (ids [N]) then map_option (setCut False) (lookup j (nodes s))
           else map_option (dropKid (node_id N)) (lookup j (nodes s)))"
      using assms(6) pc(3) [of j] cf(5) [of j] cf(5) [of "node_id T"]
      by (auto simp: assms(7) hp(1) n1 ids_markCutNodes option.map_comp comp_def
            simp del: lookup_Cons ids_Cons)
  qed
  have "node_id T \<in> set (ids (nodes s))" using tin by (simp add: n1 cf(1))
  then obtain x where x: "lookup (node_id T) (nodes s) = Some x"
    using lookup_in by blast
  have "node_id N \<in> set (ids (nodes s))" using assms(3) by (rule member_ids)
  then obtain y where y: "lookup (node_id N) (nodes s) = Some y"
    using lookup_in by blast
  have a: "\<exists>l p c ks. lookup (node_id T) (nodes s2) = Some (l, p, c, ks @ [node_id N])"
    using eq x by (cases x) simp
  have ni: "node_id N \<in> set (ids [N])" by simp
  have b: "\<exists>l p ks. lookup (node_id N) (nodes s2) = Some (l, p, Some False, ks)"
    using eq y assms(6) ni by (cases y) (auto simp del: ids_Cons)
  have cl: "clipboard s2 = None"
    using hp(2) by (simp add: assms(7))
  have dd: "distinct (ids (nodes s2))"
    using pc(1) by (simp add: assms(7) hp(1) n1 del: ids_Cons)
  have ss: "set (ids (nodes s2)) = set (ids (nodes s))"
    using pc(2) cf(1) by (simp add: assms(7) hp(1) n1 del: ids_Cons)
  show ?thesis
    using cl dd ss a b eq by (simp del: lookup_Cons ids_Cons)
qed


theorem cut_then_paste_moves_node_witness:
  "distinct (ids (nodes exStateAClicked)) \<and> contextNode exStateAClicked = Some exA
   \<and> exA \<in> set (flattenTree (nodes exStateAClicked)) \<and> node_id exA \<noteq> ''root''
   \<and> exB \<in> set (flattenTree (nodes (handleCut exStateAClicked)))
   \<and> node_id exB \<notin> set (ids [exA])
   \<and> clipboard exStateMoved = None
   \<and> lookup ''b'' (nodes exStateMoved) = Some ([66], Some ''root'', None, [''a''])
   \<and> lookup ''a'' (nodes exStateMoved) = Some ([65], Some ''root'', Some False, [])
   \<and> lookup ''root'' (nodes exStateMoved) = Some (RootLabel, None, None, [''b''])"
proof -
  have d: "distinct (ids (nodes exStateAClicked))"
    by (simp add: exStateAClicked_fields exStateAB_ids del: ids_Cons)
  have c: "contextNode exStateAClicked = Some exA"
    by (rule exStateAClicked_fields)
  have m: "exA \<in> set (flattenTree (nodes exStateAClicked))"
    by (simp add: exStateAClicked_fields exRootAB_def)
  have r: "node_id exA \<noteq> ''root''"
    by (simp add: exA_def)
  have t: "exB \<in> set (flattenTree (nodes (handleCut exStateAClicked)))"
    by (simp add: exStateCut_nodes [unfolded exStateCut_def])
  have o: "node_id exB \<notin> set (ids [exA])"
    by (simp add: exA_def exB_def)
  note th = cut_then_paste_moves_node [OF d c m r t o exStateMoved_unfold]
  have l: "lookup j (nodes exStateMoved) =
          (if j = node_id exB
             then map_option (\<lambda>x. addKid (node_id exA) (dropKid (node_id exA) x))
                    (lookup j (nodes exStateAClicked))
           else if j \<in> set (ids [exA])
             then map_option (setCut False) (lookup j (nodes exStateAClicked))
           else map_option (dropKid (node_id exA)) (lookup j (nodes exStateAClicked)))" for j
    using th by blast
  have k: "clipboard exStateMoved = None"
    using th by blast
  show ?thesis
    using d c m r t o k
    by (simp add: l exStateAClicked_fields exRootAB_def exA_def exB_def info_def)
qed


text \<open>
  C2. Claimed: after the layout every descendant's row is strictly greater than its
  ancestor's, one node is visited per row, and the first child added under the root
  gets a row of at least 1. \<^verbatim>\<open>recalculateLayout\<close> of page.tsx starts the children on
  the row of their parent: after adding A under the root both are on row 0, and in
  root[a[b, c], d] the nodes root, a and b share row 0.
\<close>

theorem layout_first_child_row_counterexample:
  "map node_id (flattenTree (nodes exStateA)) = [''root'', ''a'']
   \<and> map row (flattenTree (nodes exStateA)) = [0, 0]
   \<and> map row (flattenTree (fst (recalculateLayout exLayoutForest 0 0))) = [0, 0, 0, 1, 2]"
  by (simp add: exStateA_nodes exRootA_def exA_def exLayoutForest_def)

text \<open>
  C2, amended. After \<^verbatim>\<open>recalculateLayout\<close> of page.tsx, for every node: the row of
  every descendant is at least the node's row, the first child is on the node's own
  row, and the children's subtrees lie in disjoint row ranges, one before the other in
  order; so do the subtrees of the top-level nodes. The row counter advances by one per
  leaf: the leaves in pre-order get consecutive rows from the start row, and the
  returned next row is the start row plus the number of leaves. The layout of the second
  variant starts the children one row below their parent and is as claimed: descendants
  are strictly below, siblings' subtrees are disjoint and ordered, and the nodes in
  pre-order get consecutive rows, one node per row.
\<close>

theorem layout_rows:
  "(\<forall>n\<in>set (flattenTree (fst (recalculateLayout ts r c))).
       (\<forall>d\<in>set (flattenTree (children n)). row n \<le> row d)
     \<and> (children n \<noteq> [] \<longrightarrow> row (hd (children n)) = row n)
     \<and> siblingsOrdered (children n))
   \<and> siblingsOrdered (fst (recalculateLayout ts r c))
   \<and> map row (filter isLeaf (flattenTree (fst (recalculateLayout ts r c)))) =
       rowsFrom r (length (filter isLeaf (flattenTree ts)))
   \<and> snd (recalculateLayout ts r c) = r + int (length (filter isLeaf (flattenTree ts)))
   \<and> (\<forall>n\<in>set (flattenTree (fst (recalculateLayout_p000 ts r c))).
       (\<forall>d\<in>set (flattenTree (children n)). row n < row d)
     \<and> siblingsOrdered (children n))
   \<and> siblingsOrdered (fst (recalculateLayout_p000 ts r c))
   \<and> map row (flattenTree (fst (recalculateLayout_p000 ts r c))) =
       rowsFrom r (length (flattenTree ts))
   \<and> snd (recalculateLayout_p000 ts r c) = r + int (length (flattenTree ts))"
  using layout_descendants [of _ ts r c] layout_first_child [of _ ts r c]
    layout_siblings_inner [of _ ts r c] layout_siblings_top [of ts r c]
    layout_leaf_rows [of ts r c] layout_snd [of ts r c]
    layout0_descendants [of _ ts r c] layout0_siblings_inner [of _ ts r c]
    layout0_siblings_top [of ts r c] layout0_rows [of ts r c] layout0_snd [of ts r c]
  by (simp add: leaves_def del: recalculateLayout.simps recalculateLayout_p000.simps)


theorem layout_rows_witness:
  "hd (fst (recalculateLayout exLayoutForest 0 0))
      \<in> set (flattenTree (fst (recalculateLayout exLayoutForest 0 0)))
   \<and> hd (children (hd (fst (recalculateLayout exLayoutForest 0 0))))
      \<in> set (flattenTree (children (hd (fst (recalculateLayout exLayoutForest 0 0)))))
   \<and> row (hd (fst (recalculateLayout exLayoutForest 0 0)))
      \<le> row (hd (children (hd (fst (recalculateLayout exLayoutForest 0 0)))))
   \<and> row (hd (children (hd (fst (recalculateLayout exLayoutForest 0 0)))))
      = row (hd (fst (recalculateLayout exLayoutForest 0 0)))
   \<and> siblingsOrdered (children (hd (fst (recalculateLayout exLayoutForest 0 0))))
   \<and> map row (filter isLeaf (flattenTree (fst (recalculateLayout exLayoutForest 0 0)))) = [0, 1, 2]
   \<and> snd (recalculateLayout exLayoutForest 0 0) = 3
   \<and> hd (fst (recalculateLayout_p000 exLayoutForest 0 0))
      \<in> set (flattenTree (fst (recalculateLayout_p000 exLayoutForest 0 0)))
   \<and> hd (children (hd (fst (recalculateLayout_p000 exLayoutForest 0 0))))
      \<in> set (flattenTree (children (hd (fst (recalculateLayout_p000 exLayoutForest 0 0)))))
   \<and> row (hd (fst (recalculateLayout_p000 exLayoutForest 0 0)))
      < row (hd (children (hd (fst (recalculateLayout_p000 exLayoutForest 0 0)))))
   \<and> map row (flattenTree (fst (recalculateLayout_p000 exLayoutForest 0 0))) = [0, 1, 2, 3, 4]
   \<and> snd (recalculateLayout_p000 exLayoutForest 0 0) = 5"
proof -
  let ?us = "fst (recalculateLayout exLayoutForest 0 0)"
  let ?vs = "fst (recalculateLayout_p000 exLayoutForest 0 0)"
  note t = layout_rows [of exLayoutForest 0 0]
  have m1: "hd ?us \<in> set (flattenTree ?us)"
    by (simp add: exLayoutForest_page)
  have m2: "hd (children (hd ?us)) \<in> set (flattenTree (children (hd ?us)))"
    by (simp add: exLayoutForest_page)
  have k: "children (hd ?us) \<noteq> []"
    by (simp add: exLayoutForest_page)
  have m3: "hd ?vs \<in> set (flattenTree ?vs)"
    by (simp add: exLayoutForest_p000)
  have m4: "hd (children (hd ?vs)) \<in> set (flattenTree (children (hd ?vs)))"
    by (simp add: exLayoutForest_p000)
  have n: "length (filter isLeaf (flattenTree exLayoutForest)) = 3"
   and n0: "length (flattenTree exLayoutForest) = 5"
    by (simp_all add: exLayoutForest_def isLeaf_def)
  have r3: "rowsFrom 0 3 = [0, 1, 2]" and r5: "rowsFrom 0 5 = [0, 1, 2, 3, 4]"
    by (simp_all add: rowsFrom_def upt_rec)
  have a: "row (hd ?us) \<le> row (hd (children (hd ?us)))"
    using t m1 m2 by blast
  have b: "row (hd (children (hd ?us))) = row (hd ?us)"
    using t m1 k by blast
  have c: "siblingsOrdered (children (hd ?us))"
    using t m1 by blast
  have d: "map row (filter isLeaf (flattenTree ?us)) = [0, 1, 2]"
    using t n r3 by simp
  have e: "snd (recalculateLayout exLayoutForest 0 0) = 3"
    using t n by simp
  have f: "row (hd ?vs) < row (hd (children (hd ?vs)))"
    using t m3 m4 by blast
  have g: "map row (flattenTree ?vs) = [0, 1, 2, 3, 4]"
    using t n0 r5 by simp
  have h: "snd (recalculateLayout_p000 exLayoutForest 0 0) = 5"
    using t n0 by simp
  show ?thesis
    using m1 m2 a b c d e m3 m4 f g h by blast
qed

text \<open>
  C5. Claimed: delete on a node that has children is a no-op. Neither variant of
  \<^verbatim>\<open>handleDelete\<close> has such a guard: called on A in the forest root[A[B]] it
  removes A together with B.
\<close>

theorem delete_subtree_counterexample:
  "contextNode exStateDeep = Some exA2 \<and> children exA2 = [exB2]
   \<and> ids (nodes exStateDeep) = [''root'', ''a'', ''b'']
   \<and> ids (nodes (handleDelete exStateDeep)) = [''root'']
   \<and> ids (nodes (handleDelete_p000 exStateDeep)) = [''root'']"
  by (simp add: handler_defs handler_p000_defs exStateDeep_fields exA2_def exB2_def)

text \<open>
  C5, amended. The guard is the disabled delete item of the menu of page.tsx: when there
  is no context node, or the context node is the root or has children, clicking the item
  leaves the state unchanged. When the context node is a leaf of a forest with unique
  ids and not the root, the click removes exactly this leaf: its id disappears, its
  parent loses it from its children, all other nodes and the clipboard are unchanged.
  \<^verbatim>\<open>handleDelete\<close> itself, in both variants, removes the context node with its
  whole subtree, whatever the node is: the ids of the subtree disappear, the parent
  loses the node from its children, and nothing else changes.
\<close>

theorem delete_menu_guard:
  "(contextNode s = None
      \<or> (\<exists>cn. contextNode s = Some cn \<and> (node_id cn = ''root'' \<or> children cn \<noteq> []))
      \<longrightarrow> clickDelete s = s)
   \<and> (distinct (ids (nodes s)) \<and> contextNode s = Some cn \<and> cn \<in> set (flattenTree (nodes s))
        \<and> node_id cn \<noteq> ''root'' \<and> children cn = []
      \<longrightarrow> clipboard (clickDelete s) = clipboard s
        \<and> ids (nodes (clickDelete s)) = filter (\<lambda>j. j \<noteq> node_id cn) (ids (nodes s))
        \<and> (\<forall>j. lookup j (nodes (clickDelete s)) =
              (if j = node_id cn then None
               else map_option (dropKid (node_id cn)) (lookup j (nodes s)))))
   \<and> (distinct (ids (nodes s)) \<and> contextNode s = Some cn \<and> cn \<in> set (flattenTree (nodes s))
      \<longrightarrow> clipboard (handleDelete s) = clipboard s
        \<and> ids (nodes (handleDelete s)) = filter (\<lambda>j. j \<notin> set (ids [cn])) (ids (nodes s))
        \<and> (\<forall>j. lookup j (nodes (handleDelete s)) =
              (if j \<in> set (ids [cn]) then None
               else map_option (dropKid (node_id cn)) (lookup j (nodes s))))
        \<and> ids (nodes (handleDelete_p000 s)) = ids (nodes (handleDelete s))
        \<and> (\<forall>j. lookup j (nodes (handleDelete_p000 s)) = lookup j (nodes (handleDelete s))))"
proof (intro conjI impI)
  assume "contextNode s = None
      \<or> (\<exists>cn. contextNode s = Some cn \<and> (node_id cn = ''root'' \<or> children cn \<noteq> []))"
  then show "clickDelete s = s"
    by (auto simp: clickDelete_def deleteDisabled_def)
next
  assume a: "distinct (ids (nodes s)) \<and> contextNode s = Some cn
      \<and> cn \<in> set (flattenTree (nodes s)) \<and> node_id cn \<noteq> ''root'' \<and> children cn = []"
  then have e: "clickDelete s = handleDelete s"
    by (simp add: clickDelete_def deleteDisabled_def)
  have leaf: "ids [cn] = [node_id cn]" using a by simp
  have d: "distinct (ids (nodes s))" and m: "cn \<in> set (flattenTree (nodes s))"
    and c: "contextNode s = Some cn"
    using a by simp_all
  show "clipboard (clickDelete s) = clipboard s"
    by (simp add: e handleDelete_fields)
  show "ids (nodes (clickDelete s)) = filter (\<lambda>j. j \<noteq> node_id cn) (ids (nodes s))"
    using deleteFrom_ids [OF d m]
    by (simp add: e handleDelete_fields c layout_ids leaf del: ids_Cons)
  show "\<forall>j. lookup j (nodes (clickDelete s)) =
              (if j = node_id cn then None
               else map_option (dropKid (node_id cn)) (lookup j (nodes s)))"
    using deleteFrom_lookup [OF d m]
    by (simp add: e handleDelete_fields c layout_lookup leaf del: ids_Cons lookup_Cons)
next
  assume a: "distinct (ids (nodes s)) \<and> contextNode s = Some cn
      \<and> cn \<in> set (flattenTree (nodes s))"
  then have d: "distinct (ids (nodes s))" and m: "cn \<in> set (flattenTree (nodes s))"
    and c: "contextNode s = Some cn"
    by simp_all
  show "clipboard (handleDelete s) = clipboard s"
    by (simp add: handleDelete_fields)
  show "ids (nodes (handleDelete s)) = filter (\<lambda>j. j \<notin> set (ids [cn])) (ids (nodes s))"
    using deleteFrom_ids [OF d m]
    by (simp add: handleDelete_fields c layout_ids del: ids_Cons)
  show "\<forall>j. lookup j (nodes (handleDelete s)) =
              (if j \<in> set (ids [cn]) then None
               else map_option (dropKid (node_id cn)) (lookup j (nodes s)))"
    using deleteFrom_lookup [OF d m]
    by (simp add: handleDelete_fields c layout_lookup del: ids_Cons lookup_Cons)
  show "ids (nodes (handleDelete_p000 s)) = ids (nodes (handleDelete s))"
    by (simp add: handleDelete_fields handleDelete_p000_fields layout_ids layout0_ids)
  show "\<forall>j. lookup j (nodes (handleDelete_p000 s)) = lookup j (nodes (handleDelete s))"
    by (simp add: handleDelete_fields handleDelete_p000_fields layout_lookup layout0_lookup)
qed

theorem delete_menu_guard_witness:
  "contextNode initialState = None \<and> clickDelete initialState = initialState
   \<and> contextNode exStateDeep = Some exA2 \<and> children exA2 \<noteq> []
   \<and> clickDelete exStateDeep = exStateDeep
   \<and> distinct (ids (nodes exStateDeep)) \<and> exA2 \<in> set (flattenTree (nodes exStateDeep))
   \<and> ids (nodes exStateDeep) = [''root'', ''a'', ''b'']
   \<and> ids (nodes (handleDelete exStateDeep)) = [''root'']
   \<and> ids (nodes (handleDelete_p000 exStateDeep)) = [''root'']
   \<and> distinct (ids (nodes exStateBClicked)) \<and> contextNode exStateBClicked = Some exB
   \<and> exB \<in> set (flattenTree (nodes exStateBClicked))
   \<and> node_id exB \<noteq> ''root'' \<and> children exB = []
   \<and> ids (nodes exStateBClicked) = [''root'', ''a'', ''b'']
   \<and> ids (nodes (clickDelete exStateBClicked)) = [''root'', ''a'']
   \<and> lookup ''root'' (nodes (clickDelete exStateBClicked)) = Some (RootLabel, None, None, [''a''])
   \<and> lookup ''b'' (nodes (clickDelete exStateBClicked)) = None"
proof -
  have c0: "contextNode initialState = None" by (simp add: initialState_def)
  have c1: "contextNode exStateDeep = Some exA2" by (rule exStateDeep_fields)
  have k1: "children exA2 \<noteq> []" by (simp add: exA2_def)
  have d1: "distinct (ids (nodes exStateDeep))"
    by (simp add: exStateDeep_fields exA2_def exB2_def)
  have m1: "exA2 \<in> set (flattenTree (nodes exStateDeep))"
    by (simp add: exStateDeep_fields)
  have n2: "nodes exStateBClicked = [exRootAB]"
    by (simp add: exStateBClicked_def handleRightClick_def exStateAB_nodes)
  have d: "distinct (ids (nodes exStateBClicked))"
    by (simp add: n2 exStateAB_ids del: ids_Cons)
  have c2: "contextNode exStateBClicked = Some exB"
    by (simp add: exStateBClicked_def handleRightClick_def)
  have m: "exB \<in> set (flattenTree (nodes exStateBClicked))"
    by (simp add: n2 exRootAB_def)
  have r: "node_id exB \<noteq> ''root''" and k2: "children exB = []"
    by (simp_all add: exB_def)
  have "clickDelete initialState = initialState"
    using delete_menu_guard [of initialState] c0 by blast
  moreover have "clickDelete exStateDeep = exStateDeep"
    using delete_menu_guard [of exStateDeep exA2] c1 k1 by blast
  moreover have "ids (nodes (handleDelete exStateDeep)) =
      filter (\<lambda>j. j \<notin> set (ids [exA2])) (ids (nodes exStateDeep))"
    and "ids (nodes (handleDelete_p000 exStateDeep)) = ids (nodes (handleDelete exStateDeep))"
    using delete_menu_guard [of exStateDeep exA2] d1 c1 m1 by blast+
  moreover have "ids (nodes (clickDelete exStateBClicked)) =
      filter (\<lambda>j. j \<noteq> node_id exB) (ids (nodes exStateBClicked))"
    and "lookup j (nodes (clickDelete exStateBClicked)) =
         (if j = node_id exB then None
          else map_option (dropKid (node_id exB)) (lookup j (nodes exStateBClicked)))" for j
    using delete_menu_guard [of exStateBClicked exB] d c2 m r k2 by blast+
  ultimately show ?thesis
    using c0 c1 k1 d1 m1 d c2 m r k2
    by (simp add: n2 exStateDeep_fields exRootAB_def exA_def exB_def exA2_def exB2_def info_def)
qed

text \<open>
  C9. Claimed: cut marks the cut node and every descendant of it, and the clipboard holds
  the node. The second variant marks the cut node alone and stores it unmarked: after
  cutting A in the forest root[A[B]] the child B has no cut flag.
\<close>

theorem cut_p000_marks_top_only_counterexample:
  "contextNode exStateDeep = Some exA2 \<and> node_id exA2 \<noteq> ''root''
   \<and> ids [exA2] = [''a'', ''b'']
   \<and> lookup ''a'' (nodes (handleCut_p000 exStateDeep)) = Some ([65], Some ''root'', Some True, [''b''])
   \<and> lookup ''b'' (nodes (handleCut_p000 exStateDeep)) = Some ([66], Some ''a'', None, [])
   \<and> clipboard (handleCut_p000 exStateDeep) = Some (Cut, exA2) \<and> isCut exA2 = None"
  by (simp add: handleCut_p000_def handleCloseContextMenu_def Let_def withChildren_def
        exStateDeep_fields exA2_def exB2_def info_def)

text \<open>
  C9, amended. On a forest with unique ids, cut of a node \<open>N\<close> other than the root keeps
  every id, label, \<^verbatim>\<open>parentId\<close> and children list, and the order of the nodes.
  page.tsx sets the cut flag on \<open>N\<close> and on every descendant of \<open>N\<close> and puts the marked
  copy of \<open>N\<close> into the clipboard; the second variant sets the flag on \<open>N\<close> alone and
  puts \<open>N\<close> into the clipboard as it was.
\<close>

theorem cut_is_visual_only:
  assumes "distinct (ids (nodes s))" and "contextNode s = Some N"
    and "N \<in> set (flattenTree (nodes s))" and "node_id N \<noteq> ''root''"
  shows "clipboard (handleCut s) = Some (Cut, markCutNodes N)
    \<and> ids [markCutNodes N] = ids [N]
    \<and> (\<forall>j. lookup j [markCutNodes N] = map_option (setCut True) (lookup j [N]))
    \<and> ids (nodes (handleCut s)) = ids (nodes s)
    \<and> map node_id (nodes (handleCut s)) = map node_id (nodes s)
    \<and> (\<forall>j. lookup j (nodes (handleCut s)) =
          (if j \<in> set (ids [N]) then map_option (setCut True) (lookup j (nodes s))
           else lookup j (nodes s)))
    \<and> clipboard (handleCut_p000 s) = Some (Cut, N)
    \<and> ids (nodes (handleCut_p000 s)) = ids (nodes s)
    \<and> map node_id (nodes (handleCut_p000 s)) = map node_id (nodes s)
    \<and> (\<forall>j. lookup j (nodes (handleCut_p000 s)) =
          (if j = node_id N then map_option (setCut True) (lookup j (nodes s))
           else lookup j (nodes s)))"
  using handleCut_fields [OF assms(2,4)] cut_forest [OF assms(1,3)]
    handleCut_p000_fields [OF assms(2,4)]
  by (simp add: ids_markCutNodes lookup_markCutNodes updateTree_flag_ids
        updateTree_flag_top_ids updateTree_flag_lookup del: lookup_Cons ids_Cons)

theorem cut_is_visual_only_witness:
  "distinct (ids (nodes exStateDeep)) \<and> contextNode exStateDeep = Some exA2
   \<and> exA2 \<in> set (flattenTree (nodes exStateDeep)) \<and> node_id exA2 \<noteq> ''root''
   \<and> ids [exA2] = [''a'', ''b'']
   \<and> clipboard (handleCut exStateDeep) = Some (Cut, markCutNodes exA2)
   \<and> ids (nodes (handleCut exStateDeep)) = [''root'', ''a'', ''b'']
   \<and> lookup ''root'' (nodes (handleCut exStateDeep)) = Some (RootLabel, None, None, [''a''])
   \<and> lookup ''a'' (nodes (handleCut exStateDeep)) = Some ([65], Some ''root'', Some True, [''b''])
   \<and> lookup ''b'' (nodes (handleCut exStateDeep)) = Some ([66], Some ''a'', Some True, [])
   \<and> clipboard (handleCut_p000 exStateDeep) = Some (Cut, exA2)
   \<and> ids (nodes (handleCut_p000 exStateDeep)) = [''root'', ''a'', ''b'']
   \<and> lookup ''a'' (nodes (handleCut_p000 exStateDeep)) = Some ([65], Some ''root'', Some True, [''b''])
   \<and> lookup ''b'' (nodes (handleCut_p000 exStateDeep)) = Some ([66], Some ''a'', None, [])"
proof -
  have d: "distinct (ids (nodes exStateDeep))"
    by (simp add: exStateDeep_fields exA2_def exB2_def)
  have c: "contextNode exStateDeep = Some exA2"
    by (rule exStateDeep_fields)
  have m: "exA2 \<in> set (flattenTree (nodes exStateDeep))"
    by (simp add: exStateDeep_fields)
  have r: "node_id exA2 \<noteq> ''root''"
    by (simp add: exA2_def)
  note t = cut_is_visual_only [OF d c m r]
  have l: "lookup j (nodes (handleCut exStateDeep)) =
          (if j \<in> set (ids [exA2]) then map_option (setCut True) (lookup j (nodes exStateDeep))
           else lookup j (nodes exStateDeep))"
   and l0: "lookup j (nodes (handleCut_p000 exStateDeep)) =
          (if j = node_id exA2 then map_option (setCut True) (lookup j (nodes exStateDeep))
           else lookup j (nodes exStateDeep))" for j
    using t by blast+
  have i: "ids (nodes (handleCut exStateDeep)) = ids (nodes exStateDeep)"
   and i0: "ids (nodes (handleCut_p000 exStateDeep)) = ids (nodes exStateDeep)"
    using t by blast+
  have k: "clipboard (handleCut exStateDeep) = Some (Cut, markCutNodes exA2)"
   and k0: "clipboard (handleCut_p000 exStateDeep) = Some (Cut, exA2)"
    using t by blast+
  show ?thesis
    using d c m r k k0
    by (simp add: l l0 i i0 exStateDeep_fields exA2_def exB2_def info_def)
qed




text \<open>
  C6. Claimed: after copy and paste the original subtree of \<open>N\<close> is unchanged. The guard
  allows a target inside the subtree of \<open>N\<close>: copying A of root[A[B]] and pasting under B
  puts the clone below B, so the subtree of A has changed.
\<close>

theorem copy_into_own_subtree_counterexample:
  "contextNode exStateDeep = Some exA2 \<and> node_id exA2 \<noteq> ''root'' \<and> node_id exB2 \<noteq> node_id exA2
   \<and> ids [exA2] = [''a'', ''b'']
   \<and> lookup ''b'' (nodes exStateDeep) = Some ([66], Some ''a'', None, [])
   \<and> lookup ''b'' (nodes exStateCopyInside) = Some ([66], Some ''a'', None, [''c''])
   \<and> ids (nodes exStateCopyInside) = [''root'', ''a'', ''b'', ''c'', ''cc'']"
  by (simp add: exStateCopyInside_def exStateDeep_fields handlePaste_def handleCopy_def
        handleRightClick_def handleCloseContextMenu_def Let_def withChildren_def
        exA2_def exB2_def info_def exUuid_values case_prod_beta)

text \<open>
  C6, amended. On a forest with unique ids, where the values of \<^verbatim>\<open>uuidv4\<close> drawn for
  the clone are pairwise different and not used in the forest, copy of \<open>N\<close> (not the root)
  followed by paste on \<open>T\<close> (another id) gives, in both variants: an empty clipboard; a
  clone of \<open>N\<close> with the same shape and labels, whose ids are the drawn values in
  pre-order and whose cut flags are all false; a forest with unique ids that holds the old
  ids and the ids of the clone; \<open>T\<close> with the clone as last child and every other old
  node as before. When \<open>T\<close> is not in the subtree of \<open>N\<close>, every node of this subtree is
  as before.
\<close>

theorem copy_then_paste_clones:
  assumes "distinct (ids (nodes s))" and "contextNode s = Some N"
    and "N \<in> set (flattenTree (nodes s))" and "node_id N \<noteq> ''root''"
    and "T \<in> set (flattenTree (nodes (handleCopy s)))" and "node_id T \<noteq> node_id N"
    and "\<forall>k<length (flattenTree [N]). uuidv4 k \<notin> set (ids (nodes s))"
    and "inj_on uuidv4 {..<length (flattenTree [N])}"
    and "s2 = handlePaste uuidv4 (handleRightClick pos T (handleCopy s))
         \<or> s2 = handlePaste_p000 uuidv4 (handleRightClick pos T (handleCopy s))"
    and "clone = fst (deepClone uuidv4 0 N)"
  shows "clipboard s2 = None
    \<and> ids [clone] = map uuidv4 [0..<length (flattenTree [N])]
    \<and> labelTree clone = labelTree N
    \<and> list_all (\<lambda>m. isCut m = Some False) (flattenTree [clone])
    \<and> set (ids [clone]) \<inter> set (ids (nodes s)) = {}
    \<and> distinct (ids (nodes s2))
    \<and> set (ids (nodes s2)) = set (ids (nodes s)) \<union> set (ids [clone])
    \<and> (\<forall>j. lookup j (nodes s2) =
          (if j = node_id T then map_option (addKid (node_id clone)) (lookup j (nodes s))
           else if j \<in> set (ids (nodes s)) then lookup j (nodes s)
           else lookup j [clone]))
    \<and> (node_id T \<notin> set (ids [N]) \<longrightarrow>
          (\<forall>j\<in>set (ids [N]). lookup j (nodes s2) = lookup j (nodes s)))"
proof -
  let ?s1 = "handleRightClick pos T (handleCopy s)"
  let ?n = "length (flattenTree [N])"
  let ?U = "updateTree (nodes s) (node_id T) (appendChild clone)"
  note hc = handleCopy_fields [OF assms(2,4)]
  have n1: "nodes ?s1 = nodes s" and c1: "clipboard ?s1 = Some (Copy, N)"
   and t1: "contextNode ?s1 = Some T"
    using hc by (simp_all add: handleRightClick_def)
  note hp = handlePaste_copy_fields [OF t1 c1 assms(6), of uuidv4, folded assms(10), unfolded n1]
  note hp0 = handlePaste_p000_copy_fields [OF t1 c1 assms(6), of uuidv4, folded assms(10),
      unfolded n1]
  have iU: "ids (nodes s2) = ids ?U"
    using assms(9) by (auto simp: hp(1) hp0(1) layout_ids layout0_ids simp del: ids_Cons)
  have lU: "lookup j (nodes s2) = lookup j ?U" for j
    using assms(9) by (auto simp: hp(1) hp0(1) layout_lookup layout0_lookup simp del: lookup_Cons)
  have cl: "clipboard s2 = None"
    using assms(9) hp(2) hp0(2) by auto
  have tin: "node_id T \<in> set (ids (nodes s))"
    using assms(5) hc(1) by (simp add: member_ids)
  have ic: "ids [clone] = map uuidv4 [0..<?n]"
    unfolding assms(10) using deepClone_facts(1) [of uuidv4 0 N]
    by (simp del: ids_Cons flattenTree_Cons deepClone.simps)
  have lt: "labelTree clone = labelTree N"
    unfolding assms(10) by (rule deepClone_facts)
  have fl: "list_all (\<lambda>m. isCut m = Some False) (flattenTree [clone])"
    unfolding assms(10) by (rule deepClone_facts)
  have dj: "set (ids [clone]) \<inter> set (ids (nodes s)) = {}"
    unfolding ic using assms(7) by auto
  have "inj_on uuidv4 (set [0..<?n])"
    using assms(8) by (simp add: atLeast0LessThan del: flattenTree_Cons)
  then have dc: "distinct (ids [clone])"
    unfolding ic by (simp add: distinct_map del: flattenTree_Cons)
  have dd: "distinct (ids (nodes s2))"
    unfolding iU by (rule updateTree_distinct [OF assms(1) dc dj])
  have ss: "set (ids (nodes s2)) = set (ids (nodes s)) \<union> set (ids [clone])"
    unfolding iU updateTree_ids_set_if using tin by (simp del: ids_Cons)
  have eq: "lookup j (nodes s2) =
          (if j = node_id T then map_option (addKid (node_id clone)) (lookup j (nodes s))
           else if j \<in> set (ids (nodes s)) then lookup j (nodes s)
           else lookup j [clone])" for j
    unfolding lU
    using updateTree_lookup_gen [OF assms(1) dj, of j "node_id T"] tin
    by (simp del: lookup_Cons ids_Cons)
  have sub: "set (ids [N]) \<subseteq> set (ids (nodes s))"
    by (rule subtree_ids_subset [OF assms(3)])
  have keep: "node_id T \<notin> set (ids [N]) \<longrightarrow>
          (\<forall>j\<in>set (ids [N]). lookup j (nodes s2) = lookup j (nodes s))"
    using sub by (auto simp: eq simp del: lookup_Cons ids_Cons)
  show ?thesis
    using cl ic lt fl dj dd ss eq keep by (simp del: lookup_Cons ids_Cons flattenTree_Cons)
qed

theorem copy_then_paste_clones_witness:
  "distinct (ids (nodes exStateDeep)) \<and> contextNode exStateDeep = Some exA2
   \<and> exA2 \<in> set (flattenTree (nodes exStateDeep)) \<and> node_id exA2 \<noteq> ''root''
   \<and> exRootDeep \<in> set (flattenTree (nodes (handleCopy exStateDeep)))
   \<and> node_id exRootDeep \<noteq> node_id exA2 \<and> node_id exRootDeep \<notin> set (ids [exA2])
   \<and> length (flattenTree [exA2]) = 2
   \<and> exUuid 0 \<notin> set (ids (nodes exStateDeep)) \<and> exUuid 1 \<notin> set (ids (nodes exStateDeep))
   \<and> exUuid 0 \<noteq> exUuid 1
   \<and> clipboard exStateCopied = None
   \<and> ids [fst (deepClone exUuid 0 exA2)] = [''c'', ''cc'']
   \<and> labelTree (fst (deepClone exUuid 0 exA2)) = Rose [65] [Rose [66] []]
   \<and> labelTree exA2 = Rose [65] [Rose [66] []]
   \<and> lookup ''root'' (nodes exStateCopied) = Some (RootLabel, None, None, [''a'', ''c''])
   \<and> lookup ''c'' (nodes exStateCopied) = Some ([65], Some ''root'', Some False, [''cc''])
   \<and> lookup ''cc'' (nodes exStateCopied) = Some ([66], Some ''a'', Some False, [])
   \<and> lookup ''a'' (nodes exStateCopied) = Some ([65], Some ''root'', None, [''b''])
   \<and> lookup ''b'' (nodes exStateCopied) = Some ([66], Some ''a'', None, [])
   \<and> clipboard exStateCopied_p000 = None
   \<and> lookup ''root'' (nodes exStateCopied_p000) = Some (RootLabel, None, None, [''a'', ''c''])
   \<and> lookup ''c'' (nodes exStateCopied_p000) = Some ([65], Some ''root'', Some False, [''cc''])
   \<and> lookup ''cc'' (nodes exStateCopied_p000) = Some ([66], Some ''a'', Some False, [])
   \<and> lookup ''b'' (nodes exStateCopied_p000) = Some ([66], Some ''a'', None, [])"
proof -
  note h = exStateCopy_hyps
  have u0: "exUuid 0 \<notin> set (ids (nodes exStateDeep))"
   and u1: "exUuid 1 \<notin> set (ids (nodes exStateDeep))"
   and u01: "exUuid 0 \<noteq> exUuid 1"
    by (simp_all add: h(9) exUuid_def del: ids_Cons)
  have fr: "\<forall>k<length (flattenTree [exA2]). exUuid k \<notin> set (ids (nodes exStateDeep))"
    using u0 u1 by (simp add: h(8) less_Suc_eq numeral_2_eq_2 del: flattenTree_Cons ids_Cons)
  have inj: "inj_on exUuid {..<length (flattenTree [exA2])}"
    by (rule exUuid_inj)
  have e: "exStateCopied = handlePaste exUuid (handleRightClick (0, 0) exRootDeep (handleCopy exStateDeep))
      \<or> exStateCopied = handlePaste_p000 exUuid (handleRightClick (0, 0) exRootDeep (handleCopy exStateDeep))"
    by (simp add: exStateCopied_def)
  have e0: "exStateCopied_p000 = handlePaste exUuid (handleRightClick (0, 0) exRootDeep (handleCopy exStateDeep))
      \<or> exStateCopied_p000 = handlePaste_p000 exUuid (handleRightClick (0, 0) exRootDeep (handleCopy exStateDeep))"
    by (simp add: exStateCopied_p000_def)
  note th = copy_then_paste_clones [OF h(1-6) fr inj e refl]
  note th0 = copy_then_paste_clones [OF h(1-6) fr inj e0 refl]
  let ?clone = "fst (deepClone exUuid 0 exA2)"
  have l: "lookup j (nodes exStateCopied) =
      (if j = node_id exRootDeep
         then map_option (addKid (node_id ?clone)) (lookup j (nodes exStateDeep))
       else if j \<in> set (ids (nodes exStateDeep)) then lookup j (nodes exStateDeep)
       else lookup j [?clone])" for j
    using th by blast
  have l0: "lookup j (nodes exStateCopied_p000) =
      (if j = node_id exRootDeep
         then map_option (addKid (node_id ?clone)) (lookup j (nodes exStateDeep))
       else if j \<in> set (ids (nodes exStateDeep)) then lookup j (nodes exStateDeep)
       else lookup j [?clone])" for j
    using th0 by blast
  have k: "clipboard exStateCopied = None" and k0: "clipboard exStateCopied_p000 = None"
    using th th0 by blast+
  have i: "ids [?clone] = map exUuid [0..<length (flattenTree [exA2])]"
    using th by blast
  have t: "labelTree ?clone = labelTree exA2"
    using th by blast
  have cv: "?clone = NodeItem ''c'' [65] [NodeItem ''cc'' [66] [] (Some ''a'') (Some False) 0 0]
      (Some ''root'') (Some False) 0 0"
    by (simp add: exA2_def exB2_def exUuid_values case_prod_beta)
  have lt: "labelTree exA2 = Rose [65] [Rose [66] []]"
    by (simp add: exA2_def exB2_def)
  have iv: "map exUuid [0..<2] = [''c'', ''cc'']"
    by (simp add: upt_rec exUuid_def numeral_2_eq_2)
  have idr: "node_id exRootDeep = ''root''"
    by (simp add: exRootDeep_def)
  have lc: "lookup ''c'' [?clone] = Some ([65], Some ''root'', Some False, [''cc''])"
    "lookup ''cc'' [?clone] = Some ([66], Some ''a'', Some False, [])"
    "node_id ?clone = ''c''"
    unfolding cv by (simp_all add: info_def)
  have ld: "lookup ''root'' (nodes exStateDeep) = Some (RootLabel, None, None, [''a''])"
    "lookup ''a'' (nodes exStateDeep) = Some ([65], Some ''root'', None, [''b''])"
    "lookup ''b'' (nodes exStateDeep) = Some ([66], Some ''a'', None, [])"
    by (simp_all add: exStateDeep_fields exA2_def exB2_def info_def)
  have r: "lookup ''root'' (nodes exStateCopied) = Some (RootLabel, None, None, [''a'', ''c''])"
    "lookup ''c'' (nodes exStateCopied) = Some ([65], Some ''root'', Some False, [''cc''])"
    "lookup ''cc'' (nodes exStateCopied) = Some ([66], Some ''a'', Some False, [])"
    "lookup ''a'' (nodes exStateCopied) = Some ([65], Some ''root'', None, [''b''])"
    "lookup ''b'' (nodes exStateCopied) = Some ([66], Some ''a'', None, [])"
    unfolding l idr h(9) by (simp_all add: lc ld del: lookup_Cons deepClone.simps)
  have r0: "lookup ''root'' (nodes exStateCopied_p000) = Some (RootLabel, None, None, [''a'', ''c''])"
    "lookup ''c'' (nodes exStateCopied_p000) = Some ([65], Some ''root'', Some False, [''cc''])"
    "lookup ''cc'' (nodes exStateCopied_p000) = Some ([66], Some ''a'', Some False, [])"
    "lookup ''b'' (nodes exStateCopied_p000) = Some ([66], Some ''a'', None, [])"
    unfolding l0 idr h(9) by (simp_all add: lc ld del: lookup_Cons deepClone.simps)
  show ?thesis
    using h(1-8) u0 u1 u01 k k0 lt t [unfolded lt] i [unfolded h(8) iv] r r0
    by (simp del: deepClone.simps lookup_Cons ids_Cons flattenTree_Cons)
qed

end
